theory Spec2Isabelle
  imports Main
begin

section \<open>Values, tables, exceptions\<close>

text \<open>
  A cell of a pandas table: an integer, a string, or the missing value (NaN/None).
  A DataFrame is its list of column names and its rows; every exception is an instance
  of Python's \<open>Exception\<close> (interrupts are outside the model).
\<close>

datatype cell = CInt int | CStr string | CNaN

record dataframe =
  columns :: "string list"
  rows :: "cell list list"

datatype exn =
    KeyError string
  | TypeError string
  | ValueError string
  | LibraryError string

fun exn_message :: "exn \<Rightarrow> string" where
  "exn_message (KeyError m) = m"
| "exn_message (TypeError m) = m"
| "exn_message (ValueError m) = m"
| "exn_message (LibraryError m) = m"

definition MAX_SUBMISSION_ATTEMPTS :: nat where
  "MAX_SUBMISSION_ATTEMPTS = 5"

subsection \<open>Python's \<open>str\<close> on cells\<close>

definition digit_char :: "nat \<Rightarrow> char" where
  "digit_char d =
     (if d = 0 then CHR ''0'' else if d = 1 then CHR ''1'' else if d = 2 then CHR ''2''
      else if d = 3 then CHR ''3'' else if d = 4 then CHR ''4'' else if d = 5 then CHR ''5''
      else if d = 6 then CHR ''6'' else if d = 7 then CHR ''7'' else if d = 8 then CHR ''8''
      else CHR ''9'')"

fun digits_of :: "nat \<Rightarrow> string" where
  "digits_of n =
     (if n < 10 then [digit_char n] else digits_of (n div 10) @ [digit_char (n mod 10)])"

declare digits_of.simps [simp del]

definition str_int :: "int \<Rightarrow> string" where
  "str_int i = (if i < 0 then CHR ''-'' # digits_of (nat (- i)) else digits_of (nat i))"

fun py_str :: "cell \<Rightarrow> string" where
  "py_str (CInt i) = str_int i"
| "py_str (CStr s) = s"
| "py_str CNaN = ''nan''"

section \<open>Output directories and files\<close>

datatype folder = OutputRoot | Receipts | Images | Pdfs

type_synonym path = "folder \<times> string"

datatype filedata =
    PdfOfHtml string
  | Png string
  | MergedPdf "filedata list"
  | OtherFile string

type_synonym directory = "string \<rightharpoonup> filedata"

text \<open>The disk before the module is imported: each output directory may be absent.\<close>

record disk =
  disk_receipts :: "directory option"
  disk_images :: "directory option"
  disk_pdfs :: "directory option"
  disk_archive :: "directory option"

record filesys =
  receipts_dir :: directory
  images_dir :: directory
  pdfs_dir :: directory
  archive :: "directory option"

text \<open>
  Lines 18 to 25: \<open>if not P.exists(): P.mkdir()\<close>. A directory that exists is kept
  with its files, an absent one is created empty. A \<open>mkdir\<close> that raises aborts the
  import of the module, before any run: a run starts from an import that returned.
\<close>

definition ensure_dir :: "directory option \<Rightarrow> directory" where
  "ensure_dir d = (case d of None \<Rightarrow> Map.empty | Some m \<Rightarrow> m)"

definition module_init :: "disk \<Rightarrow> filesys" where
  "module_init d =
     \<lparr> receipts_dir = ensure_dir (disk_receipts d),
       images_dir = ensure_dir (disk_images d),
       pdfs_dir = ensure_dir (disk_pdfs d),
       archive = disk_archive d \<rparr>"

definition write_file :: "path \<Rightarrow> filedata \<Rightarrow> filesys \<Rightarrow> filesys" where
  "write_file p f fs =
     (case fst p of
        Receipts \<Rightarrow> fs\<lparr>receipts_dir := (receipts_dir fs)(snd p \<mapsto> f)\<rparr>
      | Images \<Rightarrow> fs\<lparr>images_dir := (images_dir fs)(snd p \<mapsto> f)\<rparr>
      | Pdfs \<Rightarrow> fs\<lparr>pdfs_dir := (pdfs_dir fs)(snd p \<mapsto> f)\<rparr>
      | OutputRoot \<Rightarrow> fs)"

definition read_file :: "path \<Rightarrow> filesys \<Rightarrow> filedata option" where
  "read_file p fs =
     (case fst p of
        Receipts \<Rightarrow> receipts_dir fs (snd p)
      | Images \<Rightarrow> images_dir fs (snd p)
      | Pdfs \<Rightarrow> pdfs_dir fs (snd p)
      | OutputRoot \<Rightarrow> None)"

section \<open>The environment: browser, network and libraries\<close>

text \<open>
  Every call that leaves the script is an event answered by the environment, which may
  raise. Calls that only act are commands; calls that return a value are queries.

  A function of the script first retrieves the page (\<open>page = browser.page()\<close>) and then
  acts on it. Where the retrieval and the action stand in the same control context, the
  two are one call to the environment, which raises what either raises; the same holds
  for \<open>page.locator\<close> and for the constructors \<open>HTTP()\<close> and \<open>PDF()\<close>, each part of
  the call made on the object. In \<open>close_annoying_modal\<close> the retrieval stands before the
  \<open>try\<close> and the actions inside it, so there the retrieval is a command of its own,
  \<open>Page\<close>.
\<close>

datatype command =
    Page
  | Download string path
  | Goto string
  | Click string
  | WaitForSelector string nat
  | SelectOption string string nat
  | Check string
  | Fill string cell
  | HtmlToPdf string path
  | AddFilesToPdf "path list" path bool
  | MakeArchive path string folder

datatype str_query = InnerHtml string | Screenshot string path

datatype bool_query = IsVisible string

datatype table_query = ReadCsv path | ReadHtmlFirst string

datatype event =
    Cmd command "exn option"
  | AskedStr str_query "exn + string"
  | AskedBool bool_query "exn + bool"
  | AskedTable table_query "exn + dataframe"
  | Warning string
  | Printed string
  | Wrote path

record 'w env =
  cmd :: "command \<Rightarrow> 'w \<Rightarrow> exn option \<times> 'w"
  ask_str :: "str_query \<Rightarrow> 'w \<Rightarrow> (exn + string) \<times> 'w"
  ask_bool :: "bool_query \<Rightarrow> 'w \<Rightarrow> (exn + bool) \<times> 'w"
  ask_table :: "table_query \<Rightarrow> 'w \<Rightarrow> (exn + dataframe) \<times> 'w"

record 'w state =
  world :: 'w
  fs :: filesys
  trace :: "event list"

type_synonym ('a, 'w) prog = "'w state \<Rightarrow> (exn + 'a) \<times> 'w state"

definition return :: "'a \<Rightarrow> ('a, 'w) prog" where
  "return a s = (Inr a, s)"

definition raise :: "exn \<Rightarrow> ('a, 'w) prog" where
  "raise e s = (Inl e, s)"

definition bind :: "('a, 'w) prog \<Rightarrow> ('a \<Rightarrow> ('b, 'w) prog) \<Rightarrow> ('b, 'w) prog" where
  "bind m f s = (case m s of (Inl e, s1) \<Rightarrow> (Inl e, s1) | (Inr a, s1) \<Rightarrow> f a s1)"

definition emit :: "event \<Rightarrow> 'w state \<Rightarrow> 'w state" where
  "emit ev s = s\<lparr>trace := trace s @ [ev]\<rparr>"

definition call :: "'w env \<Rightarrow> command \<Rightarrow> (unit, 'w) prog" where
  "call E c s =
     (case cmd E c (world s) of
        (None, w) \<Rightarrow> (Inr (), emit (Cmd c None) (s\<lparr>world := w\<rparr>))
      | (Some e, w) \<Rightarrow> (Inl e, emit (Cmd c (Some e)) (s\<lparr>world := w\<rparr>)))"

definition query_str :: "'w env \<Rightarrow> str_query \<Rightarrow> (string, 'w) prog" where
  "query_str E q s =
     (case ask_str E q (world s) of (r, w) \<Rightarrow> (r, emit (AskedStr q r) (s\<lparr>world := w\<rparr>)))"

definition query_bool :: "'w env \<Rightarrow> bool_query \<Rightarrow> (bool, 'w) prog" where
  "query_bool E q s =
     (case ask_bool E q (world s) of (r, w) \<Rightarrow> (r, emit (AskedBool q r) (s\<lparr>world := w\<rparr>)))"

definition query_table :: "'w env \<Rightarrow> table_query \<Rightarrow> (dataframe, 'w) prog" where
  "query_table E q s =
     (case ask_table E q (world s) of (r, w) \<Rightarrow> (r, emit (AskedTable q r) (s\<lparr>world := w\<rparr>)))"

definition log_warning :: "string \<Rightarrow> (unit, 'w) prog" where
  "log_warning m s = (Inr (), emit (Warning m) s)"

definition print :: "string \<Rightarrow> (unit, 'w) prog" where
  "print m s = (Inr (), emit (Printed m) s)"

definition modify_fs :: "(filesys \<Rightarrow> filesys) \<Rightarrow> (unit, 'w) prog" where
  "modify_fs f s = (Inr (), s\<lparr>fs := f (fs s)\<rparr>)"

text \<open>A file written by a library call that succeeded; the trace records the write.\<close>

definition save :: "path \<Rightarrow> filedata \<Rightarrow> (unit, 'w) prog" where
  "save p f s = (Inr (), emit (Wrote p) (s\<lparr>fs := write_file p f (fs s)\<rparr>))"

definition seq :: "(unit, 'w) prog \<Rightarrow> ('b, 'w) prog \<Rightarrow> ('b, 'w) prog" where
  "seq m n = bind m (\<lambda>_. n)"

section \<open>The script\<close>

subsection \<open>Loading the orders and reaching the order page\<close>

definition orders_csv :: path where
  "orders_csv = (OutputRoot, ''orders.csv'')"

definition get_orders :: "'w env \<Rightarrow> (dataframe, 'w) prog" where
  "get_orders E =
     seq (call E (Download ''https://robotsparebinindustries.com/orders.csv'' orders_csv))
         (query_table E (ReadCsv orders_csv))"

definition open_robot_order_website :: "'w env \<Rightarrow> (unit, 'w) prog" where
  "open_robot_order_website E = call E (Goto ''https://robotsparebinindustries.com'')"

definition go_to_place_order_page :: "'w env \<Rightarrow> (unit, 'w) prog" where
  "go_to_place_order_page E = call E (Click ''//a[contains(text(),'Order')]'')"

definition modal_selector :: string where
  "modal_selector = ''//div[@class='modal']''"

definition ok_button :: string where
  "ok_button = ''//button[contains(text(), 'OK')]''"

text \<open>
  \<open>close_annoying_modal\<close>: the page is retrieved before the \<open>try\<close>, so an exception
  of the retrieval leaves the function; the wait and the click are inside \<open>try\<close>, and
  the handler \<open>except Exception as e\<close> logs a warning and the function returns.
\<close>

definition modal_warning :: "exn \<Rightarrow> string" where
  "modal_warning e = ''Modal did not appear: '' @ exn_message e"

definition close_annoying_modal :: "'w env \<Rightarrow> (unit, 'w) prog" where
  "close_annoying_modal E =
     seq (call E Page)
       (\<lambda>s. case seq (call E (WaitForSelector modal_selector 2000))
                      (call E (Click ok_button)) s of
              (Inl e, s1) \<Rightarrow> log_warning (modal_warning e) s1
            | (Inr u, s1) \<Rightarrow> (Inr (), s1))"

subsection \<open>The catalog\<close>

text \<open>
  \<open>df.to_dict(orient="records")\<close>: one dictionary per row, from column name to cell
  (of two columns of one name the later wins).
\<close>

definition to_records :: "dataframe \<Rightarrow> (string \<rightharpoonup> cell) list" where
  "to_records df = map (\<lambda>r. map_of (rev (zip (columns df) r))) (rows df)"

text \<open>
  The dictionary comprehension \<open>{item["Part number"]: item["Model name"] for item in
  table_dict}\<close>: the items in order, each storing its value under its key; a missing
  column raises \<open>KeyError\<close>.
\<close>

fun build_parts ::
  "(cell \<rightharpoonup> cell) \<Rightarrow> (string \<rightharpoonup> cell) list \<Rightarrow> exn + (cell \<rightharpoonup> cell)" where
  "build_parts acc [] = Inr acc"
| "build_parts acc (item # items) =
     (case item ''Part number'' of
        None \<Rightarrow> Inl (KeyError ''Part number'')
      | Some k \<Rightarrow>
          (case item ''Model name'' of
             None \<Rightarrow> Inl (KeyError ''Model name'')
           | Some v \<Rightarrow> build_parts (acc(k \<mapsto> v)) items))"

definition lift :: "exn + 'a \<Rightarrow> ('a, 'w) prog" where
  "lift r s = (r, s)"

text \<open>
  \<open>pd.read_html(str(html_table))[0]\<close> is one query, the first table parsed from the
  markup: it raises when the parsing raises or finds no table.
\<close>

definition get_model_parts :: "'w env \<Rightarrow> (cell \<rightharpoonup> cell, 'w) prog" where
  "get_model_parts E =
     seq (call E (Click ''//button[contains(text(), 'Show model info')]''))
       (bind (query_str E (InnerHtml ''//table[@id='model-info']'')) (\<lambda>html_table.
        bind (query_table E (ReadHtmlFirst (''<table>'' @ html_table @ ''</table>''))) (\<lambda>df.
        lift (build_parts Map.empty (to_records df)))))"

subsection \<open>Substituting the heads\<close>

fun index_of :: "string \<Rightarrow> string list \<Rightarrow> nat option" where
  "index_of c [] = None"
| "index_of c (x # xs) =
     (if x = c then Some 0 else map_option Suc (index_of c xs))"

text \<open>\<open>Series.map(dict)\<close>: a value that is no key of the dictionary becomes NaN.\<close>

definition map_value :: "(cell \<rightharpoonup> cell) \<Rightarrow> cell \<Rightarrow> cell" where
  "map_value d c = (case d c of None \<Rightarrow> CNaN | Some v \<Rightarrow> v)"

text \<open>\<open>orders_df["Head"] = orders_df["Head"].map(model_parts_dict)\<close>\<close>

definition map_head :: "(cell \<rightharpoonup> cell) \<Rightarrow> dataframe \<Rightarrow> exn + dataframe" where
  "map_head d df =
     (case index_of ''Head'' (columns df) of
        None \<Rightarrow> Inl (KeyError ''Head'')
      | Some i \<Rightarrow> Inr (df\<lparr>rows := map (\<lambda>r. r[i := map_value d (r ! i)]) (rows df)\<rparr>))"

subsection \<open>One order\<close>

text \<open>\<open>iterrows\<close>: each row as a series, its cells labelled by the column names.\<close>

type_synonym series = "(string \<times> cell) list"

definition iterrows :: "dataframe \<Rightarrow> series list" where
  "iterrows df = map (\<lambda>r. zip (columns df) r) (rows df)"

definition series_get :: "series \<Rightarrow> string \<Rightarrow> (cell, 'w) prog" where
  "series_get row c =
     (case map_of row c of None \<Rightarrow> raise (KeyError c) | Some v \<Rightarrow> return v)"

definition fill_the_form :: "'w env \<Rightarrow> series \<Rightarrow> (unit, 'w) prog" where
  "fill_the_form E row =
     (case map snd row of
        [_, head, body, legs, address] \<Rightarrow>
          seq (print (py_str head))
            (case head of
               CStr h \<Rightarrow>
                 seq (call E (SelectOption ''//select[@id='head']'' (h @ '' head'') 3000))
                (seq (call E (Check (''//input[@type='radio'][@name='body'][@id='id-body-''
                                       @ py_str body @ ''']'')))
                (seq (call E (Fill ''//input[@placeholder='Enter the part number for the legs']''
                                (CStr (py_str legs))))
                     (call E (Fill ''//input[@id='address']'' address))))
             | _ \<Rightarrow> raise (TypeError ''unsupported operand type(s) for +''))
      | _ \<Rightarrow> raise (ValueError ''wrong number of values to unpack''))"

definition preview_order :: "'w env \<Rightarrow> (unit, 'w) prog" where
  "preview_order E = call E (Click ''//button[@id='preview']'')"

definition order_button :: string where
  "order_button = ''//button[@id='order']''"

definition error_alert :: string where
  "error_alert = ''//div[@class='alert alert-danger'][@role='alert']''"

definition check_order_success :: "'w env \<Rightarrow> (bool, 'w) prog" where
  "check_order_success E =
     bind (query_bool E (IsVisible error_alert)) (\<lambda>has_error_message.
       if has_error_message then return False else return True)"

definition retry_message :: string where
  "retry_message = ''Failed to submit order, retrying...''"

text \<open>
  The loop of \<open>submit_until_success\<close>, from the values of \<open>success\<close> and \<open>count\<close>
  at the loop test.
\<close>

function submit_loop :: "'w env \<Rightarrow> bool \<Rightarrow> nat \<Rightarrow> (unit, 'w) prog" where
  "submit_loop E success count =
     (if \<not> success \<and> count \<le> MAX_SUBMISSION_ATTEMPTS then
        seq (call E (Click order_button))
          (bind (check_order_success E) (\<lambda>success'.
             seq (if \<not> success'
                  then seq (print retry_message) (log_warning retry_message)
                  else return ())
                 (submit_loop E success' (count + 1))))
      else return ())"
  by pat_completeness auto
termination
  by (relation "measure (\<lambda>(E, success, count). MAX_SUBMISSION_ATTEMPTS + 1 - count)") auto

declare submit_loop.simps [simp del]

definition submit_until_success :: "'w env \<Rightarrow> (unit, 'w) prog" where
  "submit_until_success E = submit_loop E False 0"

definition click_order_another :: "'w env \<Rightarrow> (unit, 'w) prog" where
  "click_order_another E = call E (Click ''//button[@id='order-another']'')"

definition receipt_name :: "cell \<Rightarrow> string" where
  "receipt_name order_number = ''receipt_'' @ py_str order_number @ ''.pdf''"

definition screenshot_name :: "cell \<Rightarrow> string" where
  "screenshot_name order_number = ''screenshot_'' @ py_str order_number @ ''.png''"

definition merged_name :: "cell \<Rightarrow> string" where
  "merged_name order_number = ''receipt_with_screenshot_'' @ py_str order_number @ ''.pdf''"

text \<open>
  \<open>html_to_pdf(receipt_html, receipt_path)\<close> writes the document rendered from the
  markup at the path.
\<close>

definition store_receipt_as_pdf :: "'w env \<Rightarrow> cell \<Rightarrow> (path, 'w) prog" where
  "store_receipt_as_pdf E order_number =
     bind (query_str E (InnerHtml ''//div[@id='receipt']'')) (\<lambda>receipt_html.
       seq (call E (HtmlToPdf receipt_html (Receipts, receipt_name order_number)))
      (seq (save (Receipts, receipt_name order_number) (PdfOfHtml receipt_html))
           (return (Receipts, receipt_name order_number))))"

text \<open>
  \<open>locator.screenshot(path=...)\<close> returns the image and writes it to the path.
\<close>

definition screenshot_robot :: "'w env \<Rightarrow> cell \<Rightarrow> (path, 'w) prog" where
  "screenshot_robot E order_number =
     bind (query_str E (Screenshot ''//div[@id='robot-preview-image']''
                          (Images, screenshot_name order_number))) (\<lambda>img.
       seq (save (Images, screenshot_name order_number) (Png img))
           (return (Images, screenshot_name order_number)))"

text \<open>
  \<open>add_files_to_pdf([pdf_file, screenshot], target_document=output_path, append=False)\<close>
  reads its two inputs and writes a new document, replacing what was at the target.
\<close>

fun read_all :: "filesys \<Rightarrow> path list \<Rightarrow> exn + filedata list" where
  "read_all fs0 [] = Inr []"
| "read_all fs0 (p # ps) =
     (case read_file p fs0 of
        None \<Rightarrow> Inl (LibraryError (''no such file: '' @ snd p))
      | Some f \<Rightarrow> (case read_all fs0 ps of Inl e \<Rightarrow> Inl e | Inr fs' \<Rightarrow> Inr (f # fs')))"

definition embed_screenshot_to_receipt :: "'w env \<Rightarrow> cell \<Rightarrow> path \<Rightarrow> path \<Rightarrow> (unit, 'w) prog" where
  "embed_screenshot_to_receipt E order_number screenshot pdf_file =
     seq (call E (AddFilesToPdf [pdf_file, screenshot] (Pdfs, merged_name order_number) False))
       (\<lambda>s. bind (lift (read_all (fs s) [pdf_file, screenshot])) (\<lambda>parts.
               save (Pdfs, merged_name order_number) (MergedPdf parts)) s)"

text \<open>The body of the loop over the rows.\<close>

definition process_order :: "'w env \<Rightarrow> series \<Rightarrow> (unit, 'w) prog" where
  "process_order E row =
     seq (close_annoying_modal E)
    (seq (fill_the_form E row)
    (seq (preview_order E)
    (seq (submit_until_success E)
    (bind (series_get row ''Order number'') (\<lambda>n1.
     bind (store_receipt_as_pdf E n1) (\<lambda>receipt_path.
     bind (series_get row ''Order number'') (\<lambda>n2.
     bind (screenshot_robot E n2) (\<lambda>screenshot_path.
     bind (series_get row ''Order number'') (\<lambda>n3.
     seq (embed_screenshot_to_receipt E n3 screenshot_path receipt_path)
         (click_order_another E))))))))))"

fun process_orders :: "'w env \<Rightarrow> series list \<Rightarrow> (unit, 'w) prog" where
  "process_orders E [] = return ()"
| "process_orders E (row # later) = seq (process_order E row) (process_orders E later)"

subsection \<open>The archive and the task\<close>

definition archive_base :: path where
  "archive_base = (OutputRoot, ''robot_orders_receipts'')"

text \<open>
  \<open>shutil.make_archive(base, "zip", root_dir=PDFS_PATH)\<close>: the archive holds every
  file of the directory, under its name.
\<close>

definition archive_receipts :: "'w env \<Rightarrow> (unit, 'w) prog" where
  "archive_receipts E =
     seq (call E (MakeArchive archive_base ''zip'' Pdfs))
    (seq (modify_fs (\<lambda>f. f\<lparr>archive := Some (pdfs_dir f)\<rparr>))
         (print (''ZIP archive created: '' @ ''robot_orders_receipts.zip'')))"

definition after_orders_loaded :: "'w env \<Rightarrow> dataframe \<Rightarrow> (unit, 'w) prog" where
  "after_orders_loaded E orders_df =
     seq (open_robot_order_website E)
    (seq (go_to_place_order_page E)
    (seq (close_annoying_modal E)
    (bind (get_model_parts E) (\<lambda>model_parts_dict.
     bind (lift (map_head model_parts_dict orders_df)) (\<lambda>orders_df'.
     seq (process_orders E (iterrows orders_df'))
         (archive_receipts E))))))"

definition order_robots_from_RobotSpareBin :: "'w env \<Rightarrow> (unit, 'w) prog" where
  "order_robots_from_RobotSpareBin E =
     bind (get_orders E) (\<lambda>orders_df. after_orders_loaded E orders_df)"

text \<open>A run: the module is imported (the directories are ensured), then the task runs.\<close>

definition start_state :: "'w \<Rightarrow> disk \<Rightarrow> 'w state" where
  "start_state w d = \<lparr> world = w, fs = module_init d, trace = [] \<rparr>"

definition run :: "'w env \<Rightarrow> 'w \<Rightarrow> disk \<Rightarrow> (exn + unit) \<times> 'w state" where
  "run E w d = order_robots_from_RobotSpareBin E (start_state w d)"

section \<open>Observations on traces\<close>

text \<open>A click on the submit button, whatever its outcome.\<close>

fun is_submit_click :: "event \<Rightarrow> bool" where
  "is_submit_click (Cmd (Click b) r) = (b = order_button)"
| "is_submit_click ev = False"

definition submit_clicks :: "event list \<Rightarrow> nat" where
  "submit_clicks tr = length (filter is_submit_click tr)"

text \<open>The success check that found no visible error indicator.\<close>

definition no_error_seen :: event where
  "no_error_seen = AskedBool (IsVisible error_alert) (Inr False)"

definition from_first_success :: "event list \<Rightarrow> event list" where
  "from_first_success tr = dropWhile (\<lambda>ev. ev \<noteq> no_error_seen) tr"

text \<open>The calls to the environment, without the log lines and the file writes.\<close>

fun is_call :: "event \<Rightarrow> bool" where
  "is_call (Cmd c r) = True"
| "is_call (AskedStr q r) = True"
| "is_call (AskedBool q r) = True"
| "is_call (AskedTable q r) = True"
| "is_call ev = False"

text \<open>
  A sequence of attempts: each is a click on the submit button followed by the visibility
  query on the error alert; only a click that raised has no query after it, and is last.
\<close>

fun click_then_check :: "event list \<Rightarrow> bool" where
  "click_then_check [] = True"
| "click_then_check (Cmd (Click b) None # AskedBool (IsVisible a) r # evs) =
     (b = order_button \<and> a = error_alert \<and> click_then_check evs)"
| "click_then_check [Cmd (Click b) (Some e)] = (b = order_button)"
| "click_then_check evs = False"

text \<open>The events the submission loop can add to the trace.\<close>

fun loop_event :: "event \<Rightarrow> bool" where
  "loop_event (Cmd (Click b) r) = (b = order_button)"
| "loop_event (AskedBool q r) = True"
| "loop_event (Warning m) = True"
| "loop_event (Printed m) = True"
| "loop_event ev = False"

section \<open>Observations on files and rows\<close>

text \<open>The files written during a run, in order, as the trace records them.\<close>

fun writes :: "event list \<Rightarrow> path list" where
  "writes [] = []"
| "writes (Wrote p # evs) = p # writes evs"
| "writes (ev # evs) = writes evs"

text \<open>The merged documents written: the names written in the directory of merged PDFs.\<close>

definition merged_written :: "event list \<Rightarrow> string list" where
  "merged_written tr = map snd (filter (\<lambda>p. fst p = Pdfs) (writes tr))"

text \<open>The values selected in the head dropdown, in order.\<close>

fun selected_options :: "event list \<Rightarrow> string list" where
  "selected_options [] = []"
| "selected_options (Cmd (SelectOption sel v t) r # evs) = v # selected_options evs"
| "selected_options (ev # evs) = selected_options evs"

text \<open>
  An event that writes no file, selects no option and is no click on the submit button;
  a step that leaves the files alone and adds only such events.
\<close>

fun plain_event :: "event \<Rightarrow> bool" where
  "plain_event (Wrote p) = False"
| "plain_event (Cmd (SelectOption sel v t) r) = False"
| "plain_event (Cmd (Click b) r) = (b \<noteq> order_button)"
| "plain_event ev = True"

definition plain_step :: "'w state \<Rightarrow> 'w state \<Rightarrow> bool" where
  "plain_step s s' \<longleftrightarrow> fs s' = fs s \<and> (\<exists>new. trace s' = trace s @ new \<and> list_all plain_event new)"

text \<open>\<open>row["Order number"]\<close>, and the value \<open>fill_the_form\<close> selects for a row.\<close>

definition order_number_of :: "series \<Rightarrow> cell option" where
  "order_number_of row = map_of row ''Order number''"

definition head_option :: "series \<Rightarrow> string option" where
  "head_option row =
     (case map snd row of
        [a, CStr h, b, l, ad] \<Rightarrow> Some (h @ '' head'')
      | _ \<Rightarrow> None)"

text \<open>
  A row the script can process: five cells, the head a string (a model name), and a
  column \<open>Order number\<close>.
\<close>

definition ready_row :: "series \<Rightarrow> bool" where
  "ready_row row \<longleftrightarrow> head_option row \<noteq> None \<and> order_number_of row \<noteq> None"

text \<open>The three files one order writes: receipt, screenshot, merged document.\<close>

definition order_writes :: "cell \<Rightarrow> path list" where
  "order_writes n =
     [(Receipts, receipt_name n), (Images, screenshot_name n), (Pdfs, merged_name n)]"

text \<open>
  The part of a merged document's name between \<open>receipt_with_screenshot_\<close> and
  \<open>.pdf\<close>.
\<close>

definition order_id_in_name :: "string \<Rightarrow> string" where
  "order_id_in_name name = take (length name - 28) (drop 24 name)"

definition archive_entry :: "filesys \<Rightarrow> string \<Rightarrow> filedata option" where
  "archive_entry f name = (case archive f of None \<Rightarrow> None | Some a \<Rightarrow> a name)"

text \<open>
  An environment none of whose calls raises (retrieval of the page included), and one
  where the error alert is visible at every check.
\<close>

definition never_raises :: "'w env \<Rightarrow> bool" where
  "never_raises E \<longleftrightarrow>
     (\<forall>c w. fst (cmd E c w) = None) \<and> (\<forall>q w. \<not> isl (fst (ask_str E q w)))
     \<and> (\<forall>q w. \<not> isl (fst (ask_bool E q w))) \<and> (\<forall>q w. \<not> isl (fst (ask_table E q w)))"

definition always_rejected :: "'w env \<Rightarrow> bool" where
  "always_rejected E \<longleftrightarrow> (\<forall>w. fst (ask_bool E (IsVisible error_alert) w) = Inr True)"

section \<open>Concrete environments\<close>

text \<open>
  An environment whose world counts the visibility queries made so far: the error alert
  is visible at query \<open>n\<close> when \<open>visible n\<close>; a command raises what \<open>failing\<close> says.
\<close>

definition scripted_env ::
  "(nat \<Rightarrow> bool) \<Rightarrow> (command \<Rightarrow> exn option) \<Rightarrow> dataframe \<Rightarrow> dataframe \<Rightarrow> nat env" where
  "scripted_env visible failing orders catalog =
     \<lparr> cmd = (\<lambda>c w. (failing c, w)),
       ask_str = (\<lambda>q w. (Inr ''<p>robot</p>'', w)),
       ask_bool = (\<lambda>q w. (Inr (visible w), Suc w)),
       ask_table = (\<lambda>q w. (case q of ReadCsv p \<Rightarrow> Inr orders
                                    | ReadHtmlFirst h \<Rightarrow> Inr catalog, w)) \<rparr>"

definition empty_table :: dataframe where
  "empty_table = \<lparr> columns = [], rows = [] \<rparr>"

definition empty_disk :: disk where
  "empty_disk =
     \<lparr> disk_receipts = None, disk_images = None, disk_pdfs = None, disk_archive = None \<rparr>"

definition third_time_lucky :: "nat env" where
  "third_time_lucky = scripted_env (\<lambda>n. n < 2) (\<lambda>c. None) empty_table empty_table"

definition timeout_error :: exn where
  "timeout_error = LibraryError ''Timeout 2000ms exceeded.''"

definition no_modal :: "nat env" where
  "no_modal =
     scripted_env (\<lambda>n. False)
       (\<lambda>c. case c of WaitForSelector sel t \<Rightarrow> Some timeout_error | _ \<Rightarrow> None)
       empty_table empty_table"

definition stuck_modal :: "nat env" where
  "stuck_modal =
     scripted_env (\<lambda>n. False)
       (\<lambda>c. if c = Click ok_button then Some (LibraryError ''element is not enabled'') else None)
       empty_table empty_table"

definition browser_closed :: exn where
  "browser_closed = LibraryError ''Target page, context or browser has been closed''"

definition no_page :: "nat env" where
  "no_page =
     scripted_env (\<lambda>n. False) (\<lambda>c. if c = Page then Some browser_closed else None)
       empty_table empty_table"

text \<open>
  A catalog of two parts and two orders; a disk whose directory of merged PDFs holds a
  document of an earlier run for order 1 and a file of another kind.
\<close>

definition sample_catalog :: dataframe where
  "sample_catalog =
     \<lparr> columns = [''Model name'', ''Part number''],
       rows = [[CStr ''Roll-a-thor'', CInt 1], [CStr ''Peanut crusher'', CInt 2]] \<rparr>"

definition sample_orders :: dataframe where
  "sample_orders =
     \<lparr> columns = [''Order number'', ''Head'', ''Body'', ''Legs'', ''Address''],
       rows = [[CInt 1, CInt 2, CInt 3, CInt 4, CStr ''Address 123''],
               [CInt 2, CInt 1, CInt 1, CInt 2, CStr ''Address 456'']] \<rparr>"

definition stale_name :: string where
  "stale_name = ''receipt_with_screenshot_1.pdf''"

definition used_disk :: disk where
  "used_disk =
     \<lparr> disk_receipts = None, disk_images = None,
       disk_pdfs = Some [stale_name \<mapsto> OtherFile ''earlier run'',
                         ''notes.txt'' \<mapsto> OtherFile ''kept''],
       disk_archive = None \<rparr>"

definition happy_env :: "nat env" where
  "happy_env = scripted_env (\<lambda>n. False) (\<lambda>c. None) sample_orders sample_catalog"

text \<open>An environment that shows the error alert at every check, and two rows to order.\<close>

definition rejecting_env :: "nat env" where
  "rejecting_env = scripted_env (\<lambda>n. True) (\<lambda>c. None) empty_table empty_table"

definition two_rows :: "series list" where
  "two_rows =
     [[(''Order number'', CInt 1), (''Head'', CStr ''Peanut crusher''), (''Body'', CInt 3),
       (''Legs'', CInt 4), (''Address'', CStr ''Address 123'')],
      [(''Order number'', CInt 2), (''Head'', CStr ''Roll-a-thor''), (''Body'', CInt 1),
       (''Legs'', CInt 2), (''Address'', CStr ''Address 456'')]]"




text \<open>A catalog table that lists part number 1 twice.\<close>

definition two_heads :: dataframe where
  "two_heads =
     \<lparr> columns = [''Part number'', ''Model name''],
       rows = [[CInt 1, CStr ''Roll-a-thor''], [CInt 2, CStr ''Peanut crusher''],
               [CInt 1, CStr ''D.A.V.E'']] \<rparr>"

definition duplicate_env :: "nat env" where
  "duplicate_env = scripted_env (\<lambda>n. False) (\<lambda>c. None) empty_table two_heads"

section \<open>Basic facts about the primitives\<close>

lemmas run_simps = seq_def bind_def call_def emit_def check_order_success_def query_bool_def
  query_str_def query_table_def return_def raise_def lift_def print_def log_warning_def
  save_def modify_fs_def

lemma call_result:
  "call E c s = (r, s') \<Longrightarrow>
   trace s' = trace s @ [Cmd c (case r of Inl e \<Rightarrow> Some e | Inr u \<Rightarrow> None)] \<and> fs s' = fs s"
  by (auto simp: call_def emit_def split: prod.splits option.splits)

lemma check_order_success_result:
  "check_order_success E s = (r, s') \<Longrightarrow>
   trace s' = trace s @ [AskedBool (IsVisible error_alert)
                           (case r of Inl e \<Rightarrow> Inl e | Inr ok \<Rightarrow> Inr (\<not> ok))]
   \<and> fs s' = fs s"
  by (auto simp: check_order_success_def bind_def query_bool_def emit_def return_def
      split: prod.splits sum.splits if_splits)

section \<open>The submission loop\<close>

lemma submit_loop_trace:
  "submit_loop E success count s = (r, s') \<Longrightarrow>
   \<exists>new. trace s' = trace s @ new
     \<and> submit_clicks new \<le> MAX_SUBMISSION_ATTEMPTS + 1 - count
     \<and> submit_clicks (from_first_success new) = 0
     \<and> click_then_check (filter is_call new)
     \<and> list_all loop_event new
     \<and> (success \<longrightarrow> new = [])
     \<and> fs s' = fs s"
proof (induction E success count arbitrary: s r s' rule: submit_loop.induct)
  case (1 E success count)
  show ?case
  proof (cases "\<not> success \<and> count \<le> MAX_SUBMISSION_ATTEMPTS")
    case False
    with "1.prems" show ?thesis
      by (auto simp: submit_loop.simps return_def submit_clicks_def from_first_success_def)
  next
    case True
    let ?rest = "\<lambda>success'. seq (if \<not> success'
                  then seq (print retry_message) (log_warning retry_message)
                  else return ()) (submit_loop E success' (count + 1))"
    from "1.prems" True
    have body: "seq (call E (Click order_button)) (bind (check_order_success E) ?rest) s = (r, s')"
      by (subst (asm) submit_loop.simps) simp
    obtain r1 s1 where c1: "call E (Click order_button) s = (r1, s1)"
      by (cases "call E (Click order_button) s") auto
    note t1 = call_result [OF c1, THEN conjunct1]
    note f1 = call_result [OF c1, THEN conjunct2]
    show ?thesis
    proof (cases r1)
      case (Inl e)
      with body c1 have "s' = s1"
        by (simp add: seq_def bind_def)
      with t1 f1 True Inl show ?thesis
        by (auto simp: submit_clicks_def from_first_success_def no_error_seen_def)
    next
      case Inr
      obtain r2 s2 where c2: "check_order_success E s1 = (r2, s2)"
        by (cases "check_order_success E s1") auto
      note t2 = check_order_success_result [OF c2, THEN conjunct1]
      note f2 = check_order_success_result [OF c2, THEN conjunct2]
      note body2 = body c1 Inr c2
      show ?thesis
      proof (cases r2)
        case (Inl e)
        with body2 have "s' = s2" by (simp add: seq_def bind_def)
        with t1 t2 f1 f2 True Inl Inr show ?thesis
          by (auto simp: submit_clicks_def from_first_success_def no_error_seen_def)
      next
        case ok: (Inr ok)
        show ?thesis
        proof (cases ok)
          case True
          with body2 ok
          have rec: "submit_loop E True (count + 1) s2 = (r, s')"
            by (simp add: seq_def bind_def return_def)
          from "1.IH" [OF \<open>\<not> success \<and> count \<le> MAX_SUBMISSION_ATTEMPTS\<close> rec]
          have "trace s' = trace s2 \<and> fs s' = fs s2" by auto
          with t1 t2 f1 f2 \<open>\<not> success \<and> count \<le> MAX_SUBMISSION_ATTEMPTS\<close> Inr ok True show ?thesis
            by (auto simp: submit_clicks_def from_first_success_def no_error_seen_def)
        next
          case False
          define s3 where "s3 = emit (Warning retry_message) (emit (Printed retry_message) s2)"
          from body2 ok False
          have rec: "submit_loop E False (count + 1) s3 = (r, s')"
            by (simp add: seq_def bind_def return_def print_def log_warning_def s3_def)
          from "1.IH" [OF True rec] obtain new' where
            n: "trace s' = trace s3 @ new'"
            "submit_clicks new' \<le> MAX_SUBMISSION_ATTEMPTS + 1 - (count + 1)"
            "submit_clicks (from_first_success new') = 0"
            "click_then_check (filter is_call new')" "list_all loop_event new'"
            "fs s' = fs s3" by auto
          have t3: "trace s3 = trace s @ [Cmd (Click order_button) None,
              AskedBool (IsVisible error_alert) (Inr True), Printed retry_message,
              Warning retry_message]"
            using Inr ok False by (simp add: s3_def emit_def t1 t2)
          have "fs s3 = fs s" by (simp add: s3_def emit_def f1 f2)
          with n t3 True show ?thesis
            by (auto simp: submit_clicks_def from_first_success_def no_error_seen_def)
        qed
      qed
    qed
  qed
qed

section \<open>Properties of the submission loop and of the modal\<close>

text \<open>
  C1. Whatever the clicks and the success checks answer, \<open>submit_until_success\<close> adds
  at most \<open>MAX_SUBMISSION_ATTEMPTS + 1\<close> clicks on the submit button to the trace, and
  from the first check that finds no visible error indicator on there is no click.
\<close>

theorem submit_until_success_bounded:
  "\<exists>new. trace (snd (submit_until_success E s)) = trace s @ new
     \<and> submit_clicks new \<le> MAX_SUBMISSION_ATTEMPTS + 1
     \<and> submit_clicks (from_first_success new) = 0"
proof -
  obtain r s' where run: "submit_loop E False 0 s = (r, s')"
    by (cases "submit_loop E False 0 s") auto
  from submit_loop_trace [OF run] show ?thesis
    by (auto simp: submit_until_success_def run)
qed

theorem submit_until_success_bounded_witness:
  "map is_submit_click (trace (snd (submit_until_success third_time_lucky (start_state 0 empty_disk))))
     = [True, False, False, False, True, False, False, False, True, False]
   \<and> last (trace (snd (submit_until_success third_time_lucky (start_state 0 empty_disk))))
     = no_error_seen
   \<and> (\<exists>new. trace (snd (submit_until_success third_time_lucky (start_state 0 empty_disk)))
          = trace (start_state 0 empty_disk) @ new
        \<and> submit_clicks new \<le> MAX_SUBMISSION_ATTEMPTS + 1
        \<and> submit_clicks (from_first_success new) = 0)"
  using submit_until_success_bounded [of third_time_lucky "start_state 0 empty_disk"]
  by (simp add: submit_until_success_def submit_loop.simps third_time_lucky_def scripted_env_def
      start_state_def run_simps MAX_SUBMISSION_ATTEMPTS_def no_error_seen_def)

text \<open>
  C7. \<open>check_order_success\<close> returns the negation of the visibility of the error alert
  (true exactly when no alert is visible, false exactly when one is), and the calls of
  \<open>submit_until_success\<close> are attempts, each a click on the submit button followed by
  that check.
\<close>

theorem attempt_clicks_then_checks:
  "fst (check_order_success E s) =
     (case fst (ask_bool E (IsVisible error_alert) (world s)) of
        Inl e \<Rightarrow> Inl e | Inr visible \<Rightarrow> Inr (\<not> visible))
   \<and> (\<exists>new. trace (snd (submit_until_success E s)) = trace s @ new
         \<and> click_then_check (filter is_call new))"
proof -
  obtain r s' where run: "submit_loop E False 0 s = (r, s')"
    by (cases "submit_loop E False 0 s") auto
  have "fst (check_order_success E s) =
     (case fst (ask_bool E (IsVisible error_alert) (world s)) of
        Inl e \<Rightarrow> Inl e | Inr visible \<Rightarrow> Inr (\<not> visible))"
    by (simp add: check_order_success_def bind_def query_bool_def return_def
        split: prod.splits sum.splits)
  moreover from submit_loop_trace [OF run]
  have "\<exists>new. trace (snd (submit_until_success E s)) = trace s @ new
         \<and> click_then_check (filter is_call new)"
    by (auto simp: submit_until_success_def run)
  ultimately show ?thesis by blast
qed

theorem attempt_clicks_then_checks_witness:
  "fst (check_order_success third_time_lucky (start_state 0 empty_disk)) = Inr False
   \<and> fst (check_order_success third_time_lucky (start_state 2 empty_disk)) = Inr True
   \<and> filter is_call (trace (snd (submit_until_success third_time_lucky (start_state 0 empty_disk))))
       = [Cmd (Click order_button) None, AskedBool (IsVisible error_alert) (Inr True),
          Cmd (Click order_button) None, AskedBool (IsVisible error_alert) (Inr True),
          Cmd (Click order_button) None, AskedBool (IsVisible error_alert) (Inr False)]
   \<and> (\<exists>new. trace (snd (submit_until_success third_time_lucky (start_state 0 empty_disk)))
          = trace (start_state 0 empty_disk) @ new
        \<and> click_then_check (filter is_call new))"
  using attempt_clicks_then_checks [of third_time_lucky "start_state 0 empty_disk"]
  by (simp add: submit_until_success_def submit_loop.simps third_time_lucky_def scripted_env_def
      start_state_def run_simps MAX_SUBMISSION_ATTEMPTS_def)

text \<open>
  C8. When the page has been retrieved and waiting for the modal raises (it did not appear
  within the timeout), \<open>close_annoying_modal\<close> returns normally: the trace gains the
  retrieval, the failed wait and one warning, the files are untouched, and the step
  sequenced after it runs.
\<close>

theorem modal_absent_is_recovered:
  assumes "cmd E Page (world s) = (None, w)"
    and "fst (cmd E (WaitForSelector modal_selector 2000) w) = Some e"
  shows "fst (close_annoying_modal E s) = Inr ()
     \<and> trace (snd (close_annoying_modal E s)) =
         trace s @ [Cmd Page None, Cmd (WaitForSelector modal_selector 2000) (Some e),
                    Warning (modal_warning e)]
     \<and> fs (snd (close_annoying_modal E s)) = fs s
     \<and> seq (close_annoying_modal E) next_step s = next_step (snd (close_annoying_modal E s))"
  using assms
  by (auto simp: close_annoying_modal_def run_simps split: prod.splits option.splits sum.splits)

theorem modal_absent_is_recovered_witness:
  "cmd no_modal Page (world (start_state 0 empty_disk)) = (None, 0)
   \<and> fst (cmd no_modal (WaitForSelector modal_selector 2000) 0) = Some timeout_error
   \<and> fst (close_annoying_modal no_modal (start_state 0 empty_disk)) = Inr ()
   \<and> trace (snd (close_annoying_modal no_modal (start_state 0 empty_disk))) =
       [Cmd Page None, Cmd (WaitForSelector modal_selector 2000) (Some timeout_error),
        Warning ''Modal did not appear: Timeout 2000ms exceeded.'']"
proof -
  have p: "cmd no_modal Page (world (start_state 0 empty_disk)) = (None, 0)"
    by (simp add: no_modal_def scripted_env_def start_state_def)
  have h: "fst (cmd no_modal (WaitForSelector modal_selector 2000) 0) = Some timeout_error"
    by (simp add: no_modal_def scripted_env_def)
  from modal_absent_is_recovered [OF p h, where next_step = "return ()"] p h show ?thesis
    by (simp add: modal_warning_def timeout_error_def start_state_def)
qed

text \<open>
  C10. \<open>close_annoying_modal\<close> raises exactly when the retrieval of the page, which
  stands before the \<open>try\<close>, raises; it then raises that exception and logs nothing.
  Once the page is retrieved it returns normally under every outcome of the wait and of
  the click on OK: an exception of either is caught and logged as a warning. The files
  are untouched in every case.
\<close>

theorem close_annoying_modal_raises_only_without_page:
  "fst (close_annoying_modal E s) =
     (case fst (cmd E Page (world s)) of Some e \<Rightarrow> Inl e | None \<Rightarrow> Inr ())
   \<and> trace (snd (close_annoying_modal E s)) = trace s @
       (case cmd E Page (world s) of
          (Some e, w) \<Rightarrow> [Cmd Page (Some e)]
        | (None, w0) \<Rightarrow>
            Cmd Page None #
            (case cmd E (WaitForSelector modal_selector 2000) w0 of
               (Some e, w) \<Rightarrow>
                 [Cmd (WaitForSelector modal_selector 2000) (Some e), Warning (modal_warning e)]
             | (None, w) \<Rightarrow>
                 (case fst (cmd E (Click ok_button) w) of
                    Some e \<Rightarrow> [Cmd (WaitForSelector modal_selector 2000) None,
                               Cmd (Click ok_button) (Some e), Warning (modal_warning e)]
                  | None \<Rightarrow> [Cmd (WaitForSelector modal_selector 2000) None,
                             Cmd (Click ok_button) None])))
   \<and> fs (snd (close_annoying_modal E s)) = fs s"
  by (auto simp: close_annoying_modal_def run_simps split: prod.splits option.splits sum.splits)

theorem close_annoying_modal_raises_only_without_page_witness:
  "fst (close_annoying_modal stuck_modal (start_state 0 empty_disk)) = Inr ()
   \<and> trace (snd (close_annoying_modal stuck_modal (start_state 0 empty_disk))) =
       [Cmd Page None, Cmd (WaitForSelector modal_selector 2000) None,
        Cmd (Click ok_button) (Some (LibraryError ''element is not enabled'')),
        Warning ''Modal did not appear: element is not enabled'']"
  using close_annoying_modal_raises_only_without_page [of stuck_modal "start_state 0 empty_disk"]
  by (simp add: stuck_modal_def scripted_env_def start_state_def modal_warning_def)

text \<open>
  C10, the failing input: when the browser is closed the retrieval of the page raises,
  and \<open>close_annoying_modal\<close> raises with it, without a warning.
\<close>

theorem close_annoying_modal_raises_without_page:
  "fst (close_annoying_modal no_page (start_state 0 empty_disk)) = Inl browser_closed
   \<and> trace (snd (close_annoying_modal no_page (start_state 0 empty_disk)))
       = [Cmd Page (Some browser_closed)]"
  by (simp add: close_annoying_modal_def no_page_def scripted_env_def start_state_def run_simps)

section \<open>Facts about steps that return\<close>

lemma find_append_cases:
  "find P (xs @ ys) = (case find P xs of None \<Rightarrow> find P ys | Some x \<Rightarrow> Some x)"
  by (induction xs) auto

lemma build_parts_last:
  "build_parts acc items = Inr m \<Longrightarrow>
   m k = (case find (\<lambda>item. item ''Part number'' = Some k) (rev items) of
            None \<Rightarrow> acc k | Some item \<Rightarrow> item ''Model name'')"
proof (induction items arbitrary: acc)
  case Nil
  then show ?case by simp
next
  case (Cons item items)
  from Cons.prems obtain p v where
    p: "item ''Part number'' = Some p" and v: "item ''Model name'' = Some v"
    and rest: "build_parts (acc(p \<mapsto> v)) items = Inr m"
    by (auto split: option.splits)
  from Cons.IH [OF rest] p v show ?case
    by (auto simp: find_append_cases split: option.splits)
qed


lemma writes_append [simp]: "writes (xs @ ys) = writes xs @ writes ys"
  by (induction xs rule: writes.induct) auto

lemma selected_options_append [simp]:
  "selected_options (xs @ ys) = selected_options xs @ selected_options ys"
  by (induction xs rule: selected_options.induct) auto

lemma submit_clicks_append [simp]: "submit_clicks (xs @ ys) = submit_clicks xs + submit_clicks ys"
  by (simp add: submit_clicks_def)

lemma merged_written_append [simp]:
  "merged_written (xs @ ys) = merged_written xs @ merged_written ys"
  by (simp add: merged_written_def)

lemma plain_events:
  "list_all plain_event new \<Longrightarrow>
   writes new = [] \<and> selected_options new = [] \<and> submit_clicks new = 0"
proof (induction new)
  case Nil
  then show ?case by (simp add: submit_clicks_def)
next
  case (Cons ev new)
  then show ?case
    by (cases ev rule: plain_event.cases) (auto simp: submit_clicks_def)
qed

lemma loop_events:
  "list_all loop_event new \<Longrightarrow> writes new = [] \<and> selected_options new = []"
proof (induction new)
  case Nil
  then show ?case by simp
next
  case (Cons ev new)
  then show ?case
    by (cases ev rule: loop_event.cases) auto
qed

lemma bind_Inr:
  "bind m f s = (Inr b, s'') \<longleftrightarrow> (\<exists>a s1. m s = (Inr a, s1) \<and> f a s1 = (Inr b, s''))"
  by (auto simp: bind_def split: prod.splits sum.splits)

lemma seq_Inr:
  "seq m n s = (Inr b, s'') \<longleftrightarrow> (\<exists>s1. m s = (Inr (), s1) \<and> n s1 = (Inr b, s''))"
  by (auto simp: seq_def bind_Inr)

lemma plain_step_refl [simp]: "plain_step s s"
  by (simp add: plain_step_def)

lemma plain_step_trans: "plain_step s s1 \<Longrightarrow> plain_step s1 s2 \<Longrightarrow> plain_step s s2"
  by (auto simp: plain_step_def)

lemma call_plain:
  "call E c s = (r, s') \<Longrightarrow> plain_event (Cmd c None) \<Longrightarrow> plain_step s s'"
  by (cases c) (auto simp: call_def emit_def plain_step_def split: prod.splits option.splits)

lemma query_str_plain: "query_str E q s = (r, s') \<Longrightarrow> plain_step s s'"
  by (auto simp: query_str_def emit_def plain_step_def split: prod.splits)

lemma query_table_plain: "query_table E q s = (r, s') \<Longrightarrow> plain_step s s'"
  by (auto simp: query_table_def emit_def plain_step_def split: prod.splits)

lemma print_plain: "print m s = (r, s') \<Longrightarrow> plain_step s s'"
  by (auto simp: print_def emit_def plain_step_def)

lemma log_warning_plain: "log_warning m s = (r, s') \<Longrightarrow> plain_step s s'"
  by (auto simp: log_warning_def emit_def plain_step_def)

lemma bind_plain:
  assumes "bind m f s = (r, s')"
    and "\<And>r1 s1. m s = (r1, s1) \<Longrightarrow> plain_step s s1"
    and "\<And>a s1 r2 s2. f a s1 = (r2, s2) \<Longrightarrow> plain_step s1 s2"
  shows "plain_step s s'"
  using assms
  by (auto simp: bind_def split: prod.splits sum.splits intro: plain_step_trans)

lemma seq_plain:
  assumes "seq m n s = (r, s')"
    and "\<And>r1 s1. m s = (r1, s1) \<Longrightarrow> plain_step s s1"
    and "\<And>s1 r2 s2. n s1 = (r2, s2) \<Longrightarrow> plain_step s1 s2"
  shows "plain_step s s'"
  using assms unfolding seq_def by (rule bind_plain)

lemma other_buttons:
  "ok_button \<noteq> order_button"
  "''//button[@id='preview']'' \<noteq> order_button"
  "''//button[@id='order-another']'' \<noteq> order_button"
  "''//a[contains(text(),'Order')]'' \<noteq> order_button"
  "''//button[contains(text(), 'Show model info')]'' \<noteq> order_button"
  by (simp_all add: ok_button_def order_button_def)

lemma close_annoying_modal_plain:
  assumes "close_annoying_modal E s = (r, s')"
  shows "plain_step s s'"
proof (rule seq_plain [OF assms [unfolded close_annoying_modal_def]])
  fix r1 s1 assume "call E Page s = (r1, s1)"
  then show "plain_step s s1" by (rule call_plain) simp
next
  fix s1 r2 s2
  assume body: "(case seq (call E (WaitForSelector modal_selector 2000))
                      (call E (Click ok_button)) s1 of
              (Inl e, s1) \<Rightarrow> log_warning (modal_warning e) s1
            | (Inr u, s1) \<Rightarrow> (Inr (), s1)) = (r2, s2)"
  obtain r0 s0 where attempt:
    "seq (call E (WaitForSelector modal_selector 2000)) (call E (Click ok_button)) s1 = (r0, s0)"
    by (cases "seq (call E (WaitForSelector modal_selector 2000)) (call E (Click ok_button)) s1")
  have p0: "plain_step s1 s0"
    by (rule seq_plain [OF attempt]) (auto elim!: call_plain simp: other_buttons)
  show "plain_step s1 s2"
  proof (cases r0)
    case (Inl e)
    with body attempt have "log_warning (modal_warning e) s0 = (r2, s2)" by simp
    then have "plain_step s0 s2" by (rule log_warning_plain)
    with p0 show ?thesis by (blast intro: plain_step_trans)
  next
    case (Inr u)
    with body attempt p0 show ?thesis by simp
  qed
qed

lemma preview_order_plain: "preview_order E s = (r, s') \<Longrightarrow> plain_step s s'"
  by (auto simp: preview_order_def other_buttons elim!: call_plain)

lemma click_order_another_plain: "click_order_another E s = (r, s') \<Longrightarrow> plain_step s s'"
  by (auto simp: click_order_another_def other_buttons elim!: call_plain)

lemma plain_step_obs:
  "plain_step s s' \<Longrightarrow>
   fs s' = fs s \<and> writes (trace s') = writes (trace s)
   \<and> selected_options (trace s') = selected_options (trace s)
   \<and> submit_clicks (trace s') = submit_clicks (trace s)"
  by (auto simp: plain_step_def dest: plain_events)

lemma call_Inr:
  "call E c s = (Inr u, s') \<Longrightarrow> trace s' = trace s @ [Cmd c None] \<and> fs s' = fs s"
  by (auto simp: call_def emit_def split: prod.splits option.splits)

lemma query_str_Inr:
  "query_str E q s = (Inr x, s') \<Longrightarrow> trace s' = trace s @ [AskedStr q (Inr x)] \<and> fs s' = fs s"
  by (auto simp: query_str_def emit_def split: prod.splits)

lemma submit_until_success_obs:
  assumes "submit_until_success E s = (r, s')"
  shows "fs s' = fs s \<and> writes (trace s') = writes (trace s)
     \<and> selected_options (trace s') = selected_options (trace s)"
  using submit_loop_trace [OF assms [unfolded submit_until_success_def]]
  by (auto dest: loop_events)

lemma fill_the_form_ok:
  assumes "fill_the_form E row s = (Inr (), s')"
  shows "\<exists>a h b l ad. map snd row = [a, CStr h, b, l, ad]
     \<and> fs s' = fs s \<and> writes (trace s') = writes (trace s)
     \<and> submit_clicks (trace s') = submit_clicks (trace s)
     \<and> selected_options (trace s') = selected_options (trace s) @ [h @ '' head'']"
proof -
  from assms obtain a hc b l ad where row: "map snd row = [a, hc, b, l, ad]"
    by (auto simp: fill_the_form_def raise_def split: list.splits)
  with assms obtain h where h: "hc = CStr h"
    by (cases hc) (auto simp: fill_the_form_def raise_def seq_Inr)
  from assms row h obtain s1 s2 s3 s4 where
    "print (py_str hc) s = (Inr (), s1)"
    "call E (SelectOption ''//select[@id='head']'' (h @ '' head'') 3000) s1 = (Inr (), s2)"
    "call E (Check (''//input[@type='radio'][@name='body'][@id='id-body-''
                                       @ py_str b @ ''']'')) s2 = (Inr (), s3)"
    "call E (Fill ''//input[@placeholder='Enter the part number for the legs']''
                                (CStr (py_str l))) s3 = (Inr (), s4)"
    "call E (Fill ''//input[@id='address']'' ad) s4 = (Inr (), s')"
    by (auto simp: fill_the_form_def seq_Inr)
  then have "fs s' = fs s \<and> writes (trace s') = writes (trace s)
     \<and> submit_clicks (trace s') = submit_clicks (trace s)
     \<and> selected_options (trace s') = selected_options (trace s) @ [h @ '' head'']"
    by (auto simp: print_def emit_def submit_clicks_def dest!: call_Inr)
  with row h show ?thesis by auto
qed

lemma store_receipt_as_pdf_ok:
  assumes "store_receipt_as_pdf E n s = (Inr p, s')"
  shows "p = (Receipts, receipt_name n)
     \<and> (\<exists>html. fs s' = write_file p (PdfOfHtml html) (fs s))
     \<and> writes (trace s') = writes (trace s) @ [p]
     \<and> selected_options (trace s') = selected_options (trace s)
     \<and> submit_clicks (trace s') = submit_clicks (trace s)"
  using assms
  by (auto simp: store_receipt_as_pdf_def bind_Inr seq_Inr save_def return_def emit_def submit_clicks_def
      dest!: call_Inr query_str_Inr)

lemma screenshot_robot_ok:
  assumes "screenshot_robot E n s = (Inr p, s')"
  shows "p = (Images, screenshot_name n)
     \<and> (\<exists>img. fs s' = write_file p (Png img) (fs s))
     \<and> writes (trace s') = writes (trace s) @ [p]
     \<and> selected_options (trace s') = selected_options (trace s)
     \<and> submit_clicks (trace s') = submit_clicks (trace s)"
  using assms
  by (auto simp: screenshot_robot_def bind_Inr seq_Inr save_def return_def emit_def submit_clicks_def
      dest!: call_Inr query_str_Inr)

lemma embed_screenshot_to_receipt_ok:
  assumes "embed_screenshot_to_receipt E n shot pdf s = (Inr (), s')"
  shows "(\<exists>parts. read_all (fs s) [pdf, shot] = Inr parts
            \<and> fs s' = write_file (Pdfs, merged_name n) (MergedPdf parts) (fs s))
     \<and> writes (trace s') = writes (trace s) @ [(Pdfs, merged_name n)]
     \<and> selected_options (trace s') = selected_options (trace s)
     \<and> submit_clicks (trace s') = submit_clicks (trace s)"
  using assms
  by (auto simp: embed_screenshot_to_receipt_def bind_Inr seq_Inr save_def lift_def emit_def submit_clicks_def
      simp del: read_all.simps dest!: call_Inr)

lemma series_get_Inr:
  "series_get row c s = (Inr v, s') \<longleftrightarrow> map_of row c = Some v \<and> s' = s"
  by (auto simp: series_get_def raise_def return_def split: option.splits)

lemma read_back:
  "read_all (write_file (Images, i) (Png img) (write_file (Receipts, r) (PdfOfHtml html) f))
     [(Receipts, r), (Images, i)] = Inr [PdfOfHtml html, Png img]"
  by (simp add: read_file_def write_file_def)

lemma process_order_ok:
  assumes "process_order E row s = (Inr (), s')"
  shows "\<exists>n h a b l ad html img.
       order_number_of row = Some n \<and> map snd row = [a, CStr h, b, l, ad]
     \<and> writes (trace s') = writes (trace s) @
         [(Receipts, receipt_name n), (Images, screenshot_name n), (Pdfs, merged_name n)]
     \<and> selected_options (trace s') = selected_options (trace s) @ [h @ '' head'']
     \<and> fs s' = write_file (Pdfs, merged_name n) (MergedPdf [PdfOfHtml html, Png img])
                (write_file (Images, screenshot_name n) (Png img)
                  (write_file (Receipts, receipt_name n) (PdfOfHtml html) (fs s)))
     \<and> (\<exists>s3 s4. submit_until_success E s3 = (Inr (), s4)
            \<and> submit_clicks (trace s') + submit_clicks (trace s3)
                = submit_clicks (trace s) + submit_clicks (trace s4))"
proof -
  from assms obtain s1 s2 s3 s4 s5 s6 s7 n rp sp where
    modal: "close_annoying_modal E s = (Inr (), s1)"
    and form: "fill_the_form E row s1 = (Inr (), s2)"
    and prev: "preview_order E s2 = (Inr (), s3)"
    and subm: "submit_until_success E s3 = (Inr (), s4)"
    and n: "map_of row ''Order number'' = Some n"
    and rcpt: "store_receipt_as_pdf E n s4 = (Inr rp, s5)"
    and shot: "screenshot_robot E n s5 = (Inr sp, s6)"
    and embed: "embed_screenshot_to_receipt E n sp rp s6 = (Inr (), s7)"
    and another: "click_order_another E s7 = (Inr (), s')"
    by (auto simp: process_order_def seq_Inr bind_Inr series_get_Inr)
  note o1 = plain_step_obs [OF close_annoying_modal_plain [OF modal]]
  note o2 = fill_the_form_ok [OF form]
  note o3 = plain_step_obs [OF preview_order_plain [OF prev]]
  note o4 = submit_until_success_obs [OF subm]
  note o5 = store_receipt_as_pdf_ok [OF rcpt]
  note o6 = screenshot_robot_ok [OF shot]
  note o7 = embed_screenshot_to_receipt_ok [OF embed]
  note o8 = plain_step_obs [OF click_order_another_plain [OF another]]
  from o2 obtain a h b l ad where row: "map snd row = [a, CStr h, b, l, ad]"
    and f2: "fs s2 = fs s1" and w2: "writes (trace s2) = writes (trace s1)"
    and so2: "selected_options (trace s2) = selected_options (trace s1) @ [h @ '' head'']"
    and c2: "submit_clicks (trace s2) = submit_clicks (trace s1)"
    by auto
  from o5 obtain html where rp: "rp = (Receipts, receipt_name n)"
    and f5: "fs s5 = write_file rp (PdfOfHtml html) (fs s4)" by auto
  from o6 obtain img where sp: "sp = (Images, screenshot_name n)"
    and f6: "fs s6 = write_file sp (Png img) (fs s5)" by auto
  from o7 obtain parts where parts: "read_all (fs s6) [rp, sp] = Inr parts"
    and f7: "fs s7 = write_file (Pdfs, merged_name n) (MergedPdf parts) (fs s6)" by auto
  from parts have p: "parts = [PdfOfHtml html, Png img]"
    by (simp only: f6 f5 rp sp read_back) simp
  have "writes (trace s') = writes (trace s) @
         [(Receipts, receipt_name n), (Images, screenshot_name n), (Pdfs, merged_name n)]"
    using o1 w2 o3 o4 o5 o6 o7 o8 by simp
  moreover have "selected_options (trace s') = selected_options (trace s) @ [h @ '' head'']"
    using o1 so2 o3 o4 o5 o6 o7 o8 by simp
  moreover have "fs s' = write_file (Pdfs, merged_name n) (MergedPdf [PdfOfHtml html, Png img])
                (write_file (Images, screenshot_name n) (Png img)
                  (write_file (Receipts, receipt_name n) (PdfOfHtml html) (fs s)))"
    using o1 f2 o3 o4 f5 f6 f7 o8 p rp sp by simp
  moreover have "submit_clicks (trace s') + submit_clicks (trace s3)
                = submit_clicks (trace s) + submit_clicks (trace s4)"
    using o1 c2 o3 o5 o6 o7 o8 by simp
  ultimately show ?thesis using n row subm by (auto simp: order_number_of_def)
qed

lemma process_orders_ok:
  assumes "process_orders E rws s = (Inr (), s')"
  shows "\<exists>ns. map order_number_of rws = map Some ns
     \<and> writes (trace s') = writes (trace s) @ concat (map order_writes ns)
     \<and> map Some (drop (length (selected_options (trace s))) (selected_options (trace s')))
          = map head_option rws
     \<and> take (length (selected_options (trace s))) (selected_options (trace s'))
          = selected_options (trace s)
     \<and> dom (pdfs_dir (fs s')) = dom (pdfs_dir (fs s)) \<union> merged_name ` set ns
     \<and> (\<forall>name. name \<notin> merged_name ` set ns \<longrightarrow> pdfs_dir (fs s') name = pdfs_dir (fs s) name)
     \<and> (\<forall>n \<in> set ns. \<exists>html img.
            pdfs_dir (fs s') (merged_name n) = Some (MergedPdf [PdfOfHtml html, Png img]))
     \<and> archive (fs s') = archive (fs s)
     \<and> dom (receipts_dir (fs s)) \<subseteq> dom (receipts_dir (fs s'))
     \<and> dom (images_dir (fs s)) \<subseteq> dom (images_dir (fs s'))"
  using assms
proof (induction rws arbitrary: s)
  case Nil
  then show ?case by (simp add: return_def)
next
  case (Cons row rws)
  from Cons.prems obtain s1 where
    first: "process_order E row s = (Inr (), s1)"
    and rest: "process_orders E rws s1 = (Inr (), s')"
    by (auto simp: seq_Inr)
  from process_order_ok [OF first] obtain n h a b l ad html img where
    n: "order_number_of row = Some n"
    and row: "map snd row = [a, CStr h, b, l, ad]"
    and w1: "writes (trace s1) = writes (trace s) @ order_writes n"
    and so1: "selected_options (trace s1) = selected_options (trace s) @ [h @ '' head'']"
    and f1: "fs s1 = write_file (Pdfs, merged_name n) (MergedPdf [PdfOfHtml html, Png img])
                (write_file (Images, screenshot_name n) (Png img)
                  (write_file (Receipts, receipt_name n) (PdfOfHtml html) (fs s)))"
    by (auto simp: order_writes_def)
  from f1 have p1: "pdfs_dir (fs s1) = (pdfs_dir (fs s))(merged_name n \<mapsto>
        MergedPdf [PdfOfHtml html, Png img])"
    and a1: "archive (fs s1) = archive (fs s)"
    and r1: "dom (receipts_dir (fs s)) \<subseteq> dom (receipts_dir (fs s1))"
    and i1: "dom (images_dir (fs s)) \<subseteq> dom (images_dir (fs s1))"
    by (auto simp: write_file_def)
  from Cons.IH [OF rest] obtain ns where
    ns: "map order_number_of rws = map Some ns"
    and w: "writes (trace s') = writes (trace s1) @ concat (map order_writes ns)"
    and so: "map Some (drop (length (selected_options (trace s1))) (selected_options (trace s')))
          = map head_option rws"
    and so': "take (length (selected_options (trace s1))) (selected_options (trace s'))
          = selected_options (trace s1)"
    and d: "dom (pdfs_dir (fs s')) = dom (pdfs_dir (fs s1)) \<union> merged_name ` set ns"
    and keep: "\<forall>name. name \<notin> merged_name ` set ns \<longrightarrow> pdfs_dir (fs s') name = pdfs_dir (fs s1) name"
    and new: "\<forall>n \<in> set ns. \<exists>html img.
            pdfs_dir (fs s') (merged_name n) = Some (MergedPdf [PdfOfHtml html, Png img])"
    and a: "archive (fs s') = archive (fs s1)"
    and r: "dom (receipts_dir (fs s1)) \<subseteq> dom (receipts_dir (fs s'))"
    and i: "dom (images_dir (fs s1)) \<subseteq> dom (images_dir (fs s'))"
    by auto
  have "map order_number_of (row # rws) = map Some (n # ns)"
    using n ns by simp
  moreover have "writes (trace s') = writes (trace s) @ concat (map order_writes (n # ns))"
    using w w1 by simp
  moreover have "dom (pdfs_dir (fs s')) = dom (pdfs_dir (fs s)) \<union> merged_name ` set (n # ns)"
    using d p1 by auto
  moreover have "\<forall>name. name \<notin> merged_name ` set (n # ns) \<longrightarrow>
      pdfs_dir (fs s') name = pdfs_dir (fs s) name"
    using keep p1 by auto
  moreover have "\<forall>n \<in> set (n # ns). \<exists>html img.
            pdfs_dir (fs s') (merged_name n) = Some (MergedPdf [PdfOfHtml html, Png img])"
  proof
    fix m assume m: "m \<in> set (n # ns)"
    show "\<exists>html img. pdfs_dir (fs s') (merged_name m) = Some (MergedPdf [PdfOfHtml html, Png img])"
    proof (cases "merged_name m \<in> merged_name ` set ns")
      case True
      then obtain m' where "m' \<in> set ns" "merged_name m = merged_name m'" by auto
      with new show ?thesis by auto
    next
      case False
      with m have "m = n" by auto
      with False keep p1 show ?thesis by auto
    qed
  qed
  moreover have "archive (fs s') = archive (fs s)" using a a1 by simp
  moreover have "dom (receipts_dir (fs s)) \<subseteq> dom (receipts_dir (fs s'))"
    using r r1 by (rule_tac subset_trans)
  moreover have "dom (images_dir (fs s)) \<subseteq> dom (images_dir (fs s'))"
    using i i1 by (rule_tac subset_trans)
  moreover
  obtain rest_sel where tl: "selected_options (trace s') = selected_options (trace s1) @ rest_sel"
    using so' by (metis append_take_drop_id)
  with so have "map Some rest_sel = map head_option rws" by simp
  with tl so1 row have
    "map Some (drop (length (selected_options (trace s))) (selected_options (trace s')))
          = map head_option (row # rws)"
    "take (length (selected_options (trace s))) (selected_options (trace s'))
          = selected_options (trace s)"
    by (simp_all add: head_option_def)
  ultimately show ?case by blast
qed

lemma get_orders_plain: "get_orders E s = (r, s') \<Longrightarrow> plain_step s s'"
  unfolding get_orders_def
  by (erule seq_plain) (auto elim!: call_plain query_table_plain)

lemma open_robot_order_website_plain:
  "open_robot_order_website E s = (r, s') \<Longrightarrow> plain_step s s'"
  by (auto simp: open_robot_order_website_def elim!: call_plain)

lemma go_to_place_order_page_plain:
  "go_to_place_order_page E s = (r, s') \<Longrightarrow> plain_step s s'"
  by (auto simp: go_to_place_order_page_def other_buttons elim!: call_plain)

lemma lift_plain: "lift x s = (r, s') \<Longrightarrow> plain_step s s'"
  by (auto simp: lift_def)

lemma get_model_parts_plain: "get_model_parts E s = (r, s') \<Longrightarrow> plain_step s s'"
  unfolding get_model_parts_def
  apply (erule seq_plain)
   apply (erule call_plain)
   apply (simp add: other_buttons)
  apply (erule bind_plain)
   apply (erule query_str_plain)
  apply (erule bind_plain)
   apply (erule query_table_plain)
  apply (erule lift_plain)
  done

lemma archive_receipts_ok:
  assumes "archive_receipts E s = (Inr (), s')"
  shows "fs s' = (fs s)\<lparr>archive := Some (pdfs_dir (fs s))\<rparr>
     \<and> writes (trace s') = writes (trace s)
     \<and> selected_options (trace s') = selected_options (trace s)
     \<and> submit_clicks (trace s') = submit_clicks (trace s)"
  using assms
  by (auto simp: archive_receipts_def seq_Inr modify_fs_def print_def emit_def submit_clicks_def
      dest!: call_Inr)

lemma map_of_zip_update_other:
  "index_of h cols = Some i \<Longrightarrow> c \<noteq> h \<Longrightarrow>
   map_of (zip cols (r[i := v])) c = map_of (zip cols r) c"
proof (induction cols arbitrary: i r)
  case Nil
  then show ?case by simp
next
  case (Cons x cols)
  show ?case
  proof (cases r)
    case Nil
    then show ?thesis by simp
  next
    case (Cons y ys)
    with Cons.prems Cons.IH show ?thesis
      by (cases i) (auto split: if_splits)
  qed
qed

lemma map_head_keeps_order_numbers:
  assumes "map_head d df = Inr df'"
  shows "map order_number_of (iterrows df') = map order_number_of (iterrows df)
     \<and> length (iterrows df') = length (rows df)"
proof -
  from assms obtain i where i: "index_of ''Head'' (columns df) = Some i"
    and df': "df' = df\<lparr>rows := map (\<lambda>r. r[i := map_value d (r ! i)]) (rows df)\<rparr>"
    by (auto simp: map_head_def split: option.splits)
  have "''Order number'' \<noteq> ''Head''" by simp
  note keep = map_of_zip_update_other [OF i this]
  show ?thesis
    by (simp add: df' iterrows_def order_number_of_def keep)
qed

lemma after_orders_loaded_ok:
  assumes "after_orders_loaded E df s = (Inr (), s')"
  shows "\<exists>parts df' ns s0 s1.
       get_model_parts E s0 = (Inr parts, s1)
     \<and> map_head parts df = Inr df'
     \<and> map order_number_of (iterrows df) = map Some ns
     \<and> length ns = length (rows df)
     \<and> writes (trace s') = writes (trace s) @ concat (map order_writes ns)
     \<and> map Some (drop (length (selected_options (trace s))) (selected_options (trace s')))
          = map head_option (iterrows df')
     \<and> dom (pdfs_dir (fs s')) = dom (pdfs_dir (fs s)) \<union> merged_name ` set ns
     \<and> (\<forall>name. name \<notin> merged_name ` set ns \<longrightarrow> pdfs_dir (fs s') name = pdfs_dir (fs s) name)
     \<and> (\<forall>n \<in> set ns. \<exists>html img.
            pdfs_dir (fs s') (merged_name n) = Some (MergedPdf [PdfOfHtml html, Png img]))
     \<and> archive (fs s') = Some (pdfs_dir (fs s'))
     \<and> dom (receipts_dir (fs s)) \<subseteq> dom (receipts_dir (fs s'))
     \<and> dom (images_dir (fs s)) \<subseteq> dom (images_dir (fs s'))"
proof -
  from assms obtain s1 s2 s3 s4 s5 parts df' where
    a1: "open_robot_order_website E s = (Inr (), s1)"
    and a2: "go_to_place_order_page E s1 = (Inr (), s2)"
    and a3: "close_annoying_modal E s2 = (Inr (), s3)"
    and a4: "get_model_parts E s3 = (Inr parts, s4)"
    and mh: "map_head parts df = Inr df'"
    and a5: "process_orders E (iterrows df') s4 = (Inr (), s5)"
    and a6: "archive_receipts E s5 = (Inr (), s')"
    by (auto simp: after_orders_loaded_def seq_Inr bind_Inr lift_def)
  note o1 = plain_step_obs [OF open_robot_order_website_plain [OF a1]]
  note o2 = plain_step_obs [OF go_to_place_order_page_plain [OF a2]]
  note o3 = plain_step_obs [OF close_annoying_modal_plain [OF a3]]
  note o4 = plain_step_obs [OF get_model_parts_plain [OF a4]]
  note o6 = archive_receipts_ok [OF a6]
  note k = map_head_keeps_order_numbers [OF mh]
  from process_orders_ok [OF a5] obtain ns where
    ns: "map order_number_of (iterrows df') = map Some ns"
    and w: "writes (trace s5) = writes (trace s4) @ concat (map order_writes ns)"
    and so: "map Some (drop (length (selected_options (trace s4))) (selected_options (trace s5)))
          = map head_option (iterrows df')"
    and d: "dom (pdfs_dir (fs s5)) = dom (pdfs_dir (fs s4)) \<union> merged_name ` set ns"
    and keep: "\<forall>name. name \<notin> merged_name ` set ns \<longrightarrow> pdfs_dir (fs s5) name = pdfs_dir (fs s4) name"
    and new: "\<forall>n \<in> set ns. \<exists>html img.
            pdfs_dir (fs s5) (merged_name n) = Some (MergedPdf [PdfOfHtml html, Png img])"
    and r: "dom (receipts_dir (fs s4)) \<subseteq> dom (receipts_dir (fs s5))"
    and i: "dom (images_dir (fs s4)) \<subseteq> dom (images_dir (fs s5))"
    by auto
  have f4: "fs s4 = fs s" using o1 o2 o3 o4 by simp
  have w4: "writes (trace s4) = writes (trace s)" using o1 o2 o3 o4 by simp
  have so4: "selected_options (trace s4) = selected_options (trace s)" using o1 o2 o3 o4 by simp
  have p': "pdfs_dir (fs s') = pdfs_dir (fs s5)" using o6 by simp
  have "map order_number_of (iterrows df) = map Some ns" using ns k by simp
  moreover have "length ns = length (rows df)"
    using ns k by (metis length_map)
  moreover have "writes (trace s') = writes (trace s) @ concat (map order_writes ns)"
    using w w4 o6 by simp
  moreover have "map Some (drop (length (selected_options (trace s))) (selected_options (trace s')))
          = map head_option (iterrows df')"
    using so so4 o6 by simp
  moreover have "dom (pdfs_dir (fs s')) = dom (pdfs_dir (fs s)) \<union> merged_name ` set ns"
    using d f4 p' by simp
  moreover have "\<forall>name. name \<notin> merged_name ` set ns \<longrightarrow> pdfs_dir (fs s') name = pdfs_dir (fs s) name"
    using keep f4 p' by simp
  moreover have "\<forall>n \<in> set ns. \<exists>html img.
            pdfs_dir (fs s') (merged_name n) = Some (MergedPdf [PdfOfHtml html, Png img])"
    using new p' by simp
  moreover have "archive (fs s') = Some (pdfs_dir (fs s'))" using o6 by simp
  moreover have "dom (receipts_dir (fs s)) \<subseteq> dom (receipts_dir (fs s'))"
    using r f4 o6 by simp
  moreover have "dom (images_dir (fs s)) \<subseteq> dom (images_dir (fs s'))"
    using i f4 o6 by simp
  ultimately show ?thesis using a4 mh by blast
qed

lemma run_ok:
  assumes "run E w d = (Inr (), s')"
    and "get_orders E (start_state w d) = (Inr df, s1)"
  shows "\<exists>parts df' ns s0 s2.
       get_model_parts E s0 = (Inr parts, s2)
     \<and> map_head parts df = Inr df'
     \<and> map order_number_of (iterrows df) = map Some ns
     \<and> length ns = length (rows df)
     \<and> writes (trace s') = concat (map order_writes ns)
     \<and> map Some (selected_options (trace s')) = map head_option (iterrows df')
     \<and> dom (pdfs_dir (fs s')) = dom (ensure_dir (disk_pdfs d)) \<union> merged_name ` set ns
     \<and> (\<forall>name. name \<notin> merged_name ` set ns \<longrightarrow>
            pdfs_dir (fs s') name = ensure_dir (disk_pdfs d) name)
     \<and> (\<forall>n \<in> set ns. \<exists>html img.
            pdfs_dir (fs s') (merged_name n) = Some (MergedPdf [PdfOfHtml html, Png img]))
     \<and> archive (fs s') = Some (pdfs_dir (fs s'))
     \<and> dom (ensure_dir (disk_receipts d)) \<subseteq> dom (receipts_dir (fs s'))
     \<and> dom (ensure_dir (disk_images d)) \<subseteq> dom (images_dir (fs s'))"
proof -
  from assms have rest: "after_orders_loaded E df s1 = (Inr (), s')"
    by (simp add: run_def order_robots_from_RobotSpareBin_def bind_def)
  note o = plain_step_obs [OF get_orders_plain [OF assms(2)]]
  have init: "fs s1 = module_init d" "writes (trace s1) = []" "selected_options (trace s1) = []"
    using o by (simp_all add: start_state_def)
  from after_orders_loaded_ok [OF rest] show ?thesis
    unfolding init by (simp add: module_init_def)
qed

section \<open>Facts about steps when no call raises\<close>

lemma call_total:
  "never_raises E \<Longrightarrow> \<exists>s'. call E c s = (Inr (), s')"
proof -
  assume "never_raises E"
  then have "fst (cmd E c (world s)) = None" by (simp add: never_raises_def)
  then show ?thesis by (cases "cmd E c (world s)") (simp add: call_def)
qed

lemma query_str_total:
  assumes "never_raises E"
  shows "\<exists>x s'. query_str E q s = (Inr x, s')"
proof -
  obtain r w where a: "ask_str E q (world s) = (r, w)" by (cases "ask_str E q (world s)")
  from assms have "\<not> isl (fst (ask_str E q (world s)))" by (simp add: never_raises_def)
  with a obtain x where "r = Inr x" by (cases r) auto
  with a show ?thesis by (simp add: query_str_def)
qed

lemma check_rejected:
  "always_rejected E \<Longrightarrow>
   \<exists>s'. check_order_success E s = (Inr False, s')"
proof -
  assume "always_rejected E"
  then have "fst (ask_bool E (IsVisible error_alert) (world s)) = Inr True"
    by (simp add: always_rejected_def)
  then show ?thesis
    by (cases "ask_bool E (IsVisible error_alert) (world s)")
       (simp add: check_order_success_def query_bool_def bind_def return_def)
qed

lemma check_order_success_total:
  assumes "never_raises E"
  shows "\<exists>ok s'. check_order_success E s = (Inr ok, s')"
proof -
  obtain r w where a: "ask_bool E (IsVisible error_alert) (world s) = (r, w)"
    by (cases "ask_bool E (IsVisible error_alert) (world s)")
  from assms have "\<not> isl (fst (ask_bool E (IsVisible error_alert) (world s)))"
    by (simp add: never_raises_def)
  with a obtain visible where "r = Inr visible" by (cases r) auto
  with a show ?thesis
    by (cases visible) (auto simp: check_order_success_def query_bool_def bind_def return_def)
qed

lemma submit_loop_total:
  assumes "never_raises E"
  shows "\<exists>s'. submit_loop E success count s = (Inr (), s')"
proof (induction "MAX_SUBMISSION_ATTEMPTS + 1 - count" arbitrary: count s success)
  case 0
  then have "\<not> count \<le> MAX_SUBMISSION_ATTEMPTS" by simp
  then show ?case
    by (subst submit_loop.simps) (simp add: return_def)
next
  case (Suc k)
  then have le: "count \<le> MAX_SUBMISSION_ATTEMPTS" by simp
  show ?case
  proof (cases success)
    case True
    then show ?thesis by (subst submit_loop.simps) (simp add: return_def)
  next
    case False
    from call_total [OF assms] obtain s1 where
      click: "call E (Click order_button) s = (Inr (), s1)" by blast
    from check_order_success_total [OF assms] obtain ok s2 where
      chk: "check_order_success E s1 = (Inr ok, s2)" by blast
    obtain s3 where warn:
      "(if \<not> ok then seq (print retry_message) (log_warning retry_message) else return ()) s2
         = (Inr (), s3)"
      by (cases ok) (simp_all add: seq_def bind_def print_def log_warning_def return_def)
    from Suc.hyps(2) have k: "k = MAX_SUBMISSION_ATTEMPTS + 1 - (count + 1)" by simp
    from Suc.hyps(1) [OF k, of ok s3] obtain s' where
      rest: "submit_loop E ok (count + 1) s3 = (Inr (), s')" by blast
    have "submit_loop E success count s = (Inr (), s')"
      using False le click chk warn rest
      by (subst submit_loop.simps) (simp add: seq_def bind_def)
    then show ?thesis ..
  qed
qed

lemma submit_loop_exhausts:
  assumes "never_raises E" and "always_rejected E"
  shows "count \<le> MAX_SUBMISSION_ATTEMPTS + 1 \<Longrightarrow>
    \<exists>s'. submit_loop E False count s = (Inr (), s')
       \<and> submit_clicks (trace s') = submit_clicks (trace s) + (MAX_SUBMISSION_ATTEMPTS + 1 - count)"
proof (induction "MAX_SUBMISSION_ATTEMPTS + 1 - count" arbitrary: count s)
  case 0
  then have "count = MAX_SUBMISSION_ATTEMPTS + 1" by simp
  then show ?case
    by (subst submit_loop.simps) (simp add: return_def)
next
  case (Suc k)
  then have le: "count \<le> MAX_SUBMISSION_ATTEMPTS" by simp
  from call_total [OF assms(1)] obtain s1 where
    click: "call E (Click order_button) s = (Inr (), s1)" by blast
  from check_rejected [OF assms(2)] obtain s2 where
    chk: "check_order_success E s1 = (Inr False, s2)" by blast
  obtain s3 where warn: "seq (print retry_message) (log_warning retry_message) s2 = (Inr (), s3)"
    and t3: "trace s3 = trace s2 @ [Printed retry_message, Warning retry_message]"
    by (simp add: seq_def bind_def print_def log_warning_def emit_def)
  from Suc.hyps(2) have k: "k = MAX_SUBMISSION_ATTEMPTS + 1 - (count + 1)" by simp
  from le have "count + 1 \<le> MAX_SUBMISSION_ATTEMPTS + 1" by simp
  from Suc.hyps(1) [OF k this, of s3] obtain s' where
    rest: "submit_loop E False (count + 1) s3 = (Inr (), s')"
    and c: "submit_clicks (trace s') =
            submit_clicks (trace s3) + (MAX_SUBMISSION_ATTEMPTS + 1 - (count + 1))"
    by blast
  have t1: "trace s1 = trace s @ [Cmd (Click order_button) None]"
    using call_Inr [OF click] by simp
  from chk have t2: "\<exists>ev. trace s2 = trace s1 @ [ev] \<and> \<not> is_submit_click ev"
    by (auto simp: check_order_success_def query_bool_def bind_def return_def emit_def
        split: prod.splits sum.splits if_splits)
  have c3: "submit_clicks (trace s3) = submit_clicks (trace s) + 1"
    using t1 t2 t3 by (auto simp: submit_clicks_def)
  have "submit_loop E False count s = (Inr (), s')"
    using le click chk warn rest
    by (subst submit_loop.simps) (simp add: seq_def bind_def)
  with c c3 le show ?case by simp
qed

lemma submit_until_success_exhausts:
  assumes "never_raises E" and "always_rejected E"
  shows "\<exists>s'. submit_until_success E s = (Inr (), s')
       \<and> submit_clicks (trace s') = submit_clicks (trace s) + (MAX_SUBMISSION_ATTEMPTS + 1)"
  using submit_loop_exhausts [OF assms, of 0 s] by (simp add: submit_until_success_def)

lemma close_annoying_modal_total:
  assumes "never_raises E"
  shows "\<exists>s'. close_annoying_modal E s = (Inr (), s')"
proof -
  from call_total [OF assms] obtain s1 where
    page: "call E Page s = (Inr (), s1)" by blast
  obtain r0 s0 where attempt:
    "seq (call E (WaitForSelector modal_selector 2000)) (call E (Click ok_button)) s1 = (r0, s0)"
    by (cases "seq (call E (WaitForSelector modal_selector 2000)) (call E (Click ok_button)) s1")
  show ?thesis
    using page attempt
    by (cases r0) (simp_all add: close_annoying_modal_def seq_def bind_def log_warning_def)
qed

lemma fill_the_form_total:
  assumes "never_raises E" and "head_option row \<noteq> None"
  shows "\<exists>s'. fill_the_form E row s = (Inr (), s')"
proof -
  from assms(2) obtain a h b l ad where row: "map snd row = [a, CStr h, b, l, ad]"
    by (auto simp: head_option_def split: list.splits cell.splits)
  obtain s1 where p: "print (py_str (CStr h)) s = (Inr (), s1)" by (simp add: print_def)
  from call_total [OF assms(1)] obtain s2 where
    c2: "call E (SelectOption ''//select[@id='head']'' (h @ '' head'') 3000) s1 = (Inr (), s2)"
    by blast
  from call_total [OF assms(1)] obtain s3 where
    c3: "call E (Check (''//input[@type='radio'][@name='body'][@id='id-body-''
                                       @ py_str b @ ''']'')) s2 = (Inr (), s3)"
    by blast
  from call_total [OF assms(1)] obtain s4 where
    c4: "call E (Fill ''//input[@placeholder='Enter the part number for the legs']''
                                (CStr (py_str l))) s3 = (Inr (), s4)"
    by blast
  from call_total [OF assms(1)] obtain s5 where
    c5: "call E (Fill ''//input[@id='address']'' ad) s4 = (Inr (), s5)"
    by blast
  have "fill_the_form E row s = (Inr (), s5)"
    using row p c2 c3 c4 c5 by (simp add: fill_the_form_def seq_def bind_def)
  then show ?thesis ..
qed

lemma store_receipt_as_pdf_total:
  assumes "never_raises E"
  shows "\<exists>p s'. store_receipt_as_pdf E n s = (Inr p, s')"
proof -
  from query_str_total [OF assms] obtain html s1 where
    q: "query_str E (InnerHtml ''//div[@id='receipt']'') s = (Inr html, s1)" by blast
  from call_total [OF assms] obtain s2 where
    c: "call E (HtmlToPdf html (Receipts, receipt_name n)) s1 = (Inr (), s2)" by blast
  show ?thesis using q c
    by (simp add: store_receipt_as_pdf_def seq_def bind_def save_def return_def)
qed

lemma screenshot_robot_total:
  assumes "never_raises E"
  shows "\<exists>p s'. screenshot_robot E n s = (Inr p, s')"
proof -
  from query_str_total [OF assms] obtain img s1 where
    q: "query_str E (Screenshot ''//div[@id='robot-preview-image']''
                          (Images, screenshot_name n)) s = (Inr img, s1)" by blast
  show ?thesis using q
    by (simp add: screenshot_robot_def seq_def bind_def save_def return_def)
qed

lemma embed_screenshot_to_receipt_total:
  assumes "never_raises E" and "read_all (fs s) [pdf, shot] = Inr parts"
  shows "\<exists>s'. embed_screenshot_to_receipt E n shot pdf s = (Inr (), s')"
proof -
  from call_total [OF assms(1)] obtain s1 where
    c: "call E (AddFilesToPdf [pdf, shot] (Pdfs, merged_name n) False) s = (Inr (), s1)"
    by blast
  from call_Inr [OF c] have "fs s1 = fs s" by simp
  with assms(2) have "read_all (fs s1) [pdf, shot] = Inr parts" by simp
  with c show ?thesis
    by (simp add: embed_screenshot_to_receipt_def seq_def bind_def save_def lift_def
        del: read_all.simps)
qed

lemma process_order_total:
  assumes "never_raises E" and "ready_row row"
  shows "\<exists>s'. process_order E row s = (Inr (), s')
     \<and> (always_rejected E \<longrightarrow>
          submit_clicks (trace s') = submit_clicks (trace s) + (MAX_SUBMISSION_ATTEMPTS + 1))"
proof -
  from assms(2) obtain n where n: "map_of row ''Order number'' = Some n"
    and h: "head_option row \<noteq> None"
    by (auto simp: ready_row_def order_number_of_def)
  from close_annoying_modal_total [OF assms(1)] obtain s1 where
    modal: "close_annoying_modal E s = (Inr (), s1)" by blast
  from fill_the_form_total [OF assms(1) h] obtain s2 where
    form: "fill_the_form E row s1 = (Inr (), s2)" by blast
  from call_total [OF assms(1)] obtain s3 where
    prev: "preview_order E s2 = (Inr (), s3)" unfolding preview_order_def by blast
  from submit_loop_total [OF assms(1)] obtain s4 where
    subm: "submit_until_success E s3 = (Inr (), s4)"
    unfolding submit_until_success_def by blast
  from store_receipt_as_pdf_total [OF assms(1)] obtain rp s5 where
    rcpt: "store_receipt_as_pdf E n s4 = (Inr rp, s5)" by blast
  from screenshot_robot_total [OF assms(1)] obtain sp s6 where
    shot: "screenshot_robot E n s5 = (Inr sp, s6)" by blast
  from store_receipt_as_pdf_ok [OF rcpt] obtain html where rp: "rp = (Receipts, receipt_name n)"
    and f5: "fs s5 = write_file rp (PdfOfHtml html) (fs s4)" by auto
  from screenshot_robot_ok [OF shot] obtain img where sp: "sp = (Images, screenshot_name n)"
    and f6: "fs s6 = write_file sp (Png img) (fs s5)" by auto
  have "read_all (fs s6) [rp, sp] = Inr [PdfOfHtml html, Png img]"
    by (simp only: f6 f5 rp sp read_back)
  from embed_screenshot_to_receipt_total [OF assms(1) this] obtain s7 where
    embed: "embed_screenshot_to_receipt E n sp rp s6 = (Inr (), s7)" by blast
  from call_total [OF assms(1)] obtain s8 where
    another: "click_order_another E s7 = (Inr (), s8)" unfolding click_order_another_def by blast
  have all: "process_order E row s = (Inr (), s8)"
    using modal form prev subm n rcpt shot embed another
    by (simp add: process_order_def seq_def bind_def series_get_def return_def)
  have k1: "submit_clicks (trace s1) = submit_clicks (trace s)"
    using plain_step_obs [OF close_annoying_modal_plain [OF modal]] by simp
  have k2: "submit_clicks (trace s2) = submit_clicks (trace s1)"
    using fill_the_form_ok [OF form] by blast
  have k3: "submit_clicks (trace s3) = submit_clicks (trace s2)"
    using plain_step_obs [OF preview_order_plain [OF prev]] by simp
  have k5: "submit_clicks (trace s5) = submit_clicks (trace s4)"
    using store_receipt_as_pdf_ok [OF rcpt] by blast
  have k6: "submit_clicks (trace s6) = submit_clicks (trace s5)"
    using screenshot_robot_ok [OF shot] by blast
  have k7: "submit_clicks (trace s7) = submit_clicks (trace s6)"
    using embed_screenshot_to_receipt_ok [OF embed] by blast
  have k8: "submit_clicks (trace s8) = submit_clicks (trace s7)"
    using plain_step_obs [OF click_order_another_plain [OF another]] by simp
  have "submit_clicks (trace s8) = submit_clicks (trace s) + (MAX_SUBMISSION_ATTEMPTS + 1)"
    if "always_rejected E"
  proof -
    from submit_until_success_exhausts [OF assms(1) that, of s3] subm
    have c4: "submit_clicks (trace s4) = submit_clicks (trace s3) + (MAX_SUBMISSION_ATTEMPTS + 1)"
      by auto
    show ?thesis by (simp only: k8 k7 k6 k5 c4 k3 k2 k1)
  qed
  with all show ?thesis by blast
qed

lemma process_orders_total:
  assumes "never_raises E"
  shows "list_all ready_row rws \<Longrightarrow>
     \<exists>s'. process_orders E rws s = (Inr (), s')
     \<and> (always_rejected E \<longrightarrow> submit_clicks (trace s') =
         submit_clicks (trace s) + (MAX_SUBMISSION_ATTEMPTS + 1) * length rws)"
proof (induction rws arbitrary: s)
  case Nil
  then show ?case by (simp add: return_def)
next
  case (Cons row rws)
  then have "ready_row row" "list_all ready_row rws" by simp_all
  from process_order_total [OF assms this(1), of s] obtain s1 where
    first: "process_order E row s = (Inr (), s1)"
    and c1: "always_rejected E \<longrightarrow>
       submit_clicks (trace s1) = submit_clicks (trace s) + (MAX_SUBMISSION_ATTEMPTS + 1)"
    by blast
  from Cons.IH [OF \<open>list_all ready_row rws\<close>, of s1] obtain s' where
    rest: "process_orders E rws s1 = (Inr (), s')"
    and c: "always_rejected E \<longrightarrow> submit_clicks (trace s') =
         submit_clicks (trace s1) + (MAX_SUBMISSION_ATTEMPTS + 1) * length rws"
    by blast
  from first rest have "process_orders E (row # rws) s = (Inr (), s')"
    by (simp add: seq_def bind_def)
  with c c1 show ?case by auto
qed

section \<open>The sample runs\<close>

lemma digits_1: "digits_of 1 = ''1''" "digits_of (Suc 0) = ''1''"
  by (simp_all add: digits_of.simps digit_char_def)

lemma digits_2: "digits_of 2 = ''2''"
  by (simp add: digits_of.simps digit_char_def)

lemma names_1:
  "merged_name (CInt 1) = ''receipt_with_screenshot_1.pdf''"
  "receipt_name (CInt 1) = ''receipt_1.pdf''"
  "screenshot_name (CInt 1) = ''screenshot_1.png''"
  by (simp_all add: merged_name_def receipt_name_def screenshot_name_def str_int_def digits_1)

lemma names_2:
  "merged_name (CInt 2) = ''receipt_with_screenshot_2.pdf''"
  "receipt_name (CInt 2) = ''receipt_2.pdf''"
  "screenshot_name (CInt 2) = ''screenshot_2.png''"
  by (simp_all add: merged_name_def receipt_name_def screenshot_name_def str_int_def digits_2)

text \<open>
  The run over the two sample orders on the used disk, evaluated: it returns normally,
  writes the two merged documents, and its archive holds the new document for order 1
  where the earlier one was, and the file of another kind.
\<close>

lemma happy_run:
  "\<exists>s'. run happy_env 0 used_disk = (Inr (), s')
     \<and> merged_written (trace s') = [stale_name, ''receipt_with_screenshot_2.pdf'']
     \<and> archive_entry (fs s') stale_name
          = Some (MergedPdf [PdfOfHtml ''<p>robot</p>'', Png ''<p>robot</p>''])
     \<and> archive_entry (fs s') ''notes.txt'' = Some (OtherFile ''kept'')"
  by (simp add: run_def order_robots_from_RobotSpareBin_def after_orders_loaded_def
      get_orders_def open_robot_order_website_def go_to_place_order_page_def
      close_annoying_modal_def get_model_parts_def to_records_def map_head_def map_value_def
      process_order_def iterrows_def fill_the_form_def preview_order_def
      submit_until_success_def submit_loop.simps store_receipt_as_pdf_def screenshot_robot_def
      embed_screenshot_to_receipt_def click_order_another_def archive_receipts_def
      series_get_def read_file_def write_file_def merged_written_def
      happy_env_def scripted_env_def sample_orders_def sample_catalog_def used_disk_def
      start_state_def module_init_def ensure_dir_def archive_entry_def stale_name_def
      names_1 names_2 run_simps MAX_SUBMISSION_ATTEMPTS_def)

lemma happy_orders:
  "\<exists>s1. get_orders happy_env (start_state 0 used_disk) = (Inr sample_orders, s1)"
  by (simp add: get_orders_def happy_env_def scripted_env_def run_simps)

lemma sample_order_numbers:
  "map order_number_of (iterrows sample_orders) = map Some ns \<Longrightarrow> ns = [CInt 1, CInt 2]"
  by (auto simp: sample_orders_def iterrows_def order_number_of_def)

lemma merged_of_order_writes:
  "map snd (filter (\<lambda>p. fst p = Pdfs) (concat (map order_writes ns))) = map merged_name ns"
  by (induction ns) (simp_all add: order_writes_def)

lemma order_id_in_merged_name: "order_id_in_name (merged_name n) = py_str n"
  by (simp add: order_id_in_name_def merged_name_def)

lemma never_raises_scripted:
  "never_raises (scripted_env visible (\<lambda>c. None) orders catalog)"
  by (simp add: never_raises_def scripted_env_def split: table_query.splits)

section \<open>Properties of the run over the orders\<close>

text \<open>
  C2. Let no call to the browser or to a library raise and let the rows be ready. Then,
  whatever the success checks answer, the loop over the orders returns normally: for
  every row, in order, the receipt, the screenshot and the merged document are written,
  and the merged document holds the receipt and the screenshot. In particular, when the
  error alert is visible at every check, every order exhausts its
  \<open>MAX_SUBMISSION_ATTEMPTS + 1\<close> submissions, and the loop still goes through all of them.
\<close>

theorem exhausted_submission_does_not_abort:
  assumes "never_raises E" and "list_all ready_row rws"
  shows "\<exists>s' ns. process_orders E rws s = (Inr (), s')
     \<and> (always_rejected E \<longrightarrow> submit_clicks (trace s') =
           submit_clicks (trace s) + (MAX_SUBMISSION_ATTEMPTS + 1) * length rws)
     \<and> map order_number_of rws = map Some ns
     \<and> writes (trace s') = writes (trace s) @ concat (map order_writes ns)
     \<and> list_all (\<lambda>n. \<exists>html img.
            pdfs_dir (fs s') (merged_name n) = Some (MergedPdf [PdfOfHtml html, Png img])) ns"
proof -
  from process_orders_total [OF assms, of s] obtain s' where
    fin: "process_orders E rws s = (Inr (), s')"
    and clicks: "always_rejected E \<longrightarrow> submit_clicks (trace s') =
         submit_clicks (trace s) + (MAX_SUBMISSION_ATTEMPTS + 1) * length rws"
    by blast
  from process_orders_ok [OF fin] obtain ns where
    ns: "map order_number_of rws = map Some ns"
    and w: "writes (trace s') = writes (trace s) @ concat (map order_writes ns)"
    and new: "\<forall>n \<in> set ns. \<exists>html img.
            pdfs_dir (fs s') (merged_name n) = Some (MergedPdf [PdfOfHtml html, Png img])"
    by blast
  from new have "list_all (\<lambda>n. \<exists>html img.
            pdfs_dir (fs s') (merged_name n) = Some (MergedPdf [PdfOfHtml html, Png img])) ns"
    by (simp add: list_all_iff)
  with fin clicks ns w show ?thesis by blast
qed

theorem exhausted_submission_does_not_abort_witness:
  "never_raises rejecting_env \<and> always_rejected rejecting_env \<and> list_all ready_row two_rows
   \<and> (\<exists>s'. process_orders rejecting_env two_rows (start_state 0 empty_disk) = (Inr (), s')
          \<and> submit_clicks (trace s') = 12
          \<and> writes (trace s') = order_writes (CInt 1) @ order_writes (CInt 2))"
proof -
  have h1: "never_raises rejecting_env"
    unfolding rejecting_env_def by (rule never_raises_scripted)
  have h2: "always_rejected rejecting_env"
    by (simp add: always_rejected_def rejecting_env_def scripted_env_def)
  have h3: "list_all ready_row two_rows"
    by (simp add: ready_row_def two_rows_def head_option_def order_number_of_def)
  from exhausted_submission_does_not_abort [OF h1 h3, of "start_state 0 empty_disk"] h2
  obtain s' ns where
    r: "process_orders rejecting_env two_rows (start_state 0 empty_disk) = (Inr (), s')"
    and c: "submit_clicks (trace s') = submit_clicks (trace (start_state (0::nat) empty_disk))
              + (MAX_SUBMISSION_ATTEMPTS + 1) * length two_rows"
    and n: "map order_number_of two_rows = map Some ns"
    and w: "writes (trace s') = writes (trace (start_state (0::nat) empty_disk))
              @ concat (map order_writes ns)"
    by blast
  from n have "ns = [CInt 1, CInt 2]"
    by (auto simp: two_rows_def order_number_of_def)
  with w have "writes (trace s') = order_writes (CInt 1) @ order_writes (CInt 2)"
    by (simp add: start_state_def)
  moreover from c have "submit_clicks (trace s') = 12"
    by (simp add: start_state_def submit_clicks_def two_rows_def MAX_SUBMISSION_ATTEMPTS_def)
  ultimately show ?thesis using h1 h2 h3 r by blast
qed

text \<open>
  C3. In a run that returns normally, one merged document is written for each row of the
  orders table, in the order of the rows: the number of merged PDFs written is the number
  of rows, and the document written for a row is named after the row's order number.
\<close>

theorem one_merged_document_per_row:
  assumes "run E w d = (Inr (), s')"
    and "get_orders E (start_state w d) = (Inr df, s1)"
  shows "length (merged_written (trace s')) = length (rows df)
     \<and> (\<exists>ns. map order_number_of (iterrows df) = map Some ns
            \<and> merged_written (trace s') = map merged_name ns)"
proof -
  from run_ok [OF assms] obtain ns where
    ns: "map order_number_of (iterrows df) = map Some ns"
    and len: "length ns = length (rows df)"
    and w: "writes (trace s') = concat (map order_writes ns)"
    by blast
  from w have "merged_written (trace s') = map merged_name ns"
    by (simp only: merged_written_def merged_of_order_writes)
  with ns len show ?thesis by auto
qed

theorem one_merged_document_per_row_witness:
  "\<exists>s'. run happy_env 0 used_disk = (Inr (), s')
      \<and> length (merged_written (trace s')) = length (rows sample_orders)
      \<and> length (rows sample_orders) = 2"
proof -
  from happy_run obtain s' where r: "run happy_env 0 used_disk = (Inr (), s')" by blast
  from happy_orders obtain s1 where
    g: "get_orders happy_env (start_state 0 used_disk) = (Inr sample_orders, s1)" by blast
  from one_merged_document_per_row [OF r g] r show ?thesis
    by (auto simp: sample_orders_def)
qed

text \<open>
  C4. In a run that returns normally the archive holds the directory of merged PDFs as
  the run leaves it: its entries are the files that were in the directory before the run
  together with the merged documents written by the run, one entry for each name. The
  entry of an order is named \<open>receipt_with_screenshot_\<close>, the order number, \<open>.pdf\<close>, and
  holds the order's receipt and screenshot.
\<close>

theorem archive_holds_the_merged_directory:
  assumes "run E w d = (Inr (), s')"
    and "get_orders E (start_state w d) = (Inr df, s1)"
  shows "\<exists>ns a. map order_number_of (iterrows df) = map Some ns
     \<and> merged_written (trace s') = map merged_name ns
     \<and> archive (fs s') = Some a
     \<and> dom a = (case disk_pdfs d of None \<Rightarrow> {} | Some m \<Rightarrow> dom m)
                 \<union> set (merged_written (trace s'))
     \<and> list_all (\<lambda>n. order_id_in_name (merged_name n) = py_str n
                       \<and> (\<exists>html img. a (merged_name n) = Some (MergedPdf [PdfOfHtml html, Png img])))
          ns"
proof -
  from run_ok [OF assms] obtain ns where
    ns: "map order_number_of (iterrows df) = map Some ns"
    and w: "writes (trace s') = concat (map order_writes ns)"
    and d: "dom (pdfs_dir (fs s')) = dom (ensure_dir (disk_pdfs d)) \<union> merged_name ` set ns"
    and new: "\<forall>n \<in> set ns. \<exists>html img.
            pdfs_dir (fs s') (merged_name n) = Some (MergedPdf [PdfOfHtml html, Png img])"
    and a: "archive (fs s') = Some (pdfs_dir (fs s'))"
    by blast
  from w have m: "merged_written (trace s') = map merged_name ns"
    by (simp only: merged_written_def merged_of_order_writes)
  from d m have "dom (pdfs_dir (fs s')) =
      (case disk_pdfs d of None \<Rightarrow> {} | Some m \<Rightarrow> dom m) \<union> set (merged_written (trace s'))"
    by (simp add: ensure_dir_def split: option.splits)
  moreover from new have "list_all (\<lambda>n. order_id_in_name (merged_name n) = py_str n
        \<and> (\<exists>html img. pdfs_dir (fs s') (merged_name n) = Some (MergedPdf [PdfOfHtml html, Png img])))
      ns"
    by (simp add: list_all_iff order_id_in_merged_name)
  ultimately show ?thesis using ns m a by blast
qed

theorem archive_holds_the_merged_directory_witness:
  "\<exists>s' a. run happy_env 0 used_disk = (Inr (), s')
      \<and> archive (fs s') = Some a
      \<and> dom a = {''notes.txt'', ''receipt_with_screenshot_1.pdf'',
                   ''receipt_with_screenshot_2.pdf''}"
proof -
  from happy_run obtain s' where r: "run happy_env 0 used_disk = (Inr (), s')"
    and m: "merged_written (trace s') = [stale_name, ''receipt_with_screenshot_2.pdf'']"
    by blast
  from happy_orders obtain s1 where
    g: "get_orders happy_env (start_state 0 used_disk) = (Inr sample_orders, s1)" by blast
  from archive_holds_the_merged_directory [OF r g] obtain a where
    a: "archive (fs s') = Some a"
    and d: "dom a = (case disk_pdfs used_disk of None \<Rightarrow> {} | Some m \<Rightarrow> dom m)
                 \<union> set (merged_written (trace s'))"
    by blast
  from d m have "dom a = {''notes.txt'', ''receipt_with_screenshot_1.pdf'',
                   ''receipt_with_screenshot_2.pdf''}"
    by (auto simp: used_disk_def stale_name_def)
  with r a show ?thesis by blast
qed

text \<open>
  C4, the failing input: on the used disk the run writes two merged documents, and its
  archive also holds \<open>notes.txt\<close>, which the run did not produce.
\<close>

theorem archive_holds_a_leftover_file:
  "fst (run happy_env 0 used_disk) = Inr ()
   \<and> merged_written (trace (snd (run happy_env 0 used_disk)))
        = [''receipt_with_screenshot_1.pdf'', ''receipt_with_screenshot_2.pdf'']
   \<and> archive_entry (fs (snd (run happy_env 0 used_disk))) ''notes.txt''
        = Some (OtherFile ''kept'')"
  using happy_run by (auto simp: stale_name_def)

text \<open>
  C9. The module creates an output directory only if it is absent and otherwise keeps its
  files; a run that returns normally removes no name from any of the three directories,
  and its archive is the directory of merged PDFs. So every name that was in that
  directory before the run is in the archive: with the content it had, unless it is the
  name of a merged document of an order of this run, which then holds that order's new
  document.
\<close>

theorem earlier_files_kept_unless_rewritten:
  assumes "run E w d = (Inr (), s')"
    and "get_orders E (start_state w d) = (Inr df, s1)"
  shows "\<exists>ns a. map order_number_of (iterrows df) = map Some ns
     \<and> archive (fs s') = Some a \<and> a = pdfs_dir (fs s')
     \<and> (case disk_pdfs d of
           None \<Rightarrow> dom a = merged_name ` set ns
         | Some m \<Rightarrow> dom m \<subseteq> dom a
                    \<and> (\<forall>name. name \<notin> merged_name ` set ns \<longrightarrow> a name = m name))
     \<and> (case disk_receipts d of
           None \<Rightarrow> True | Some m \<Rightarrow> dom m \<subseteq> dom (receipts_dir (fs s')))
     \<and> (case disk_images d of
           None \<Rightarrow> True | Some m \<Rightarrow> dom m \<subseteq> dom (images_dir (fs s')))
     \<and> (\<forall>n \<in> set ns. \<exists>html img.
            a (merged_name n) = Some (MergedPdf [PdfOfHtml html, Png img]))"
proof -
  from run_ok [OF assms] obtain ns where
    ns: "map order_number_of (iterrows df) = map Some ns"
    and d: "dom (pdfs_dir (fs s')) = dom (ensure_dir (disk_pdfs d)) \<union> merged_name ` set ns"
    and keep: "\<forall>name. name \<notin> merged_name ` set ns \<longrightarrow>
            pdfs_dir (fs s') name = ensure_dir (disk_pdfs d) name"
    and new: "\<forall>n \<in> set ns. \<exists>html img.
            pdfs_dir (fs s') (merged_name n) = Some (MergedPdf [PdfOfHtml html, Png img])"
    and a: "archive (fs s') = Some (pdfs_dir (fs s'))"
    and r: "dom (ensure_dir (disk_receipts d)) \<subseteq> dom (receipts_dir (fs s'))"
    and i: "dom (ensure_dir (disk_images d)) \<subseteq> dom (images_dir (fs s'))"
    by blast
  have p: "case disk_pdfs d of
           None \<Rightarrow> dom (pdfs_dir (fs s')) = merged_name ` set ns
         | Some m \<Rightarrow> dom m \<subseteq> dom (pdfs_dir (fs s'))
                    \<and> (\<forall>name. name \<notin> merged_name ` set ns \<longrightarrow> pdfs_dir (fs s') name = m name)"
    using d keep by (simp add: ensure_dir_def split: option.splits)
  have r': "case disk_receipts d of
           None \<Rightarrow> True | Some m \<Rightarrow> dom m \<subseteq> dom (receipts_dir (fs s'))"
    using r by (simp add: ensure_dir_def split: option.splits)
  have i': "case disk_images d of
           None \<Rightarrow> True | Some m \<Rightarrow> dom m \<subseteq> dom (images_dir (fs s'))"
    using i by (simp add: ensure_dir_def split: option.splits)
  from ns a p r' i' new show ?thesis by blast
qed

theorem earlier_files_kept_unless_rewritten_witness:
  "\<exists>s' m. run happy_env 0 used_disk = (Inr (), s')
      \<and> disk_pdfs used_disk = Some m
      \<and> m ''notes.txt'' = Some (OtherFile ''kept'')
      \<and> archive_entry (fs s') ''notes.txt'' = m ''notes.txt''"
proof -
  from happy_run obtain s' where r: "run happy_env 0 used_disk = (Inr (), s')" by blast
  from happy_orders obtain s1 where
    g: "get_orders happy_env (start_state 0 used_disk) = (Inr sample_orders, s1)" by blast
  obtain m where m: "disk_pdfs used_disk = Some m"
    and kept: "m ''notes.txt'' = Some (OtherFile ''kept'')"
    by (simp add: used_disk_def stale_name_def)
  from earlier_files_kept_unless_rewritten [OF r g] m obtain ns where
    ns: "map order_number_of (iterrows sample_orders) = map Some ns"
    and a: "archive (fs s') = Some (pdfs_dir (fs s'))"
    and keep: "\<forall>name. name \<notin> merged_name ` set ns \<longrightarrow> pdfs_dir (fs s') name = m name"
    by auto
  from sample_order_numbers [OF ns] keep
  have "pdfs_dir (fs s') ''notes.txt'' = m ''notes.txt''"
    by (simp add: names_1 names_2)
  with a have "archive_entry (fs s') ''notes.txt'' = m ''notes.txt''"
    by (simp add: archive_entry_def)
  with r m kept show ?thesis by blast
qed

text \<open>
  C9, the failing input: the directory of merged PDFs holds a document of an earlier run
  for order 1; the run over the sample orders replaces it, and the archive holds the new
  document, not the earlier one.
\<close>

theorem earlier_merged_document_is_replaced:
  "fst (run happy_env 0 used_disk) = Inr ()
   \<and> (case disk_pdfs used_disk of
         None \<Rightarrow> None | Some m \<Rightarrow> m ''receipt_with_screenshot_1.pdf'')
        = Some (OtherFile ''earlier run'')
   \<and> archive_entry (fs (snd (run happy_env 0 used_disk))) ''receipt_with_screenshot_1.pdf''
        = Some (MergedPdf [PdfOfHtml ''<p>robot</p>'', Png ''<p>robot</p>''])"
  using happy_run by (auto simp: stale_name_def used_disk_def)

section \<open>Properties of the catalog and of the substitution\<close>



text \<open>
  C6. When \<open>get_model_parts\<close> returns, its result is the dictionary built from the rows
  of the table it read: a map from part number to model name, which holds for a part
  number the model name of the last row with that part number, and nothing for a part
  number of no row.
\<close>

theorem catalog_later_row_wins:
  assumes "get_model_parts E s = (Inr m, s')"
  shows "\<exists>html df. last (trace s') =
             AskedTable (ReadHtmlFirst (''<table>'' @ html @ ''</table>'')) (Inr df)
           \<and> build_parts Map.empty (to_records df) = Inr m
           \<and> m k = (case find (\<lambda>item. item ''Part number'' = Some k) (rev (to_records df)) of
                      None \<Rightarrow> None | Some item \<Rightarrow> item ''Model name'')"
proof -
  from assms obtain html df where
    "last (trace s') = AskedTable (ReadHtmlFirst (''<table>'' @ html @ ''</table>'')) (Inr df)"
    and b: "build_parts Map.empty (to_records df) = Inr m"
    by (auto simp: get_model_parts_def run_simps split: prod.splits sum.splits option.splits)
  with build_parts_last [OF b, of k] show ?thesis by auto
qed

theorem catalog_later_row_wins_witness:
  "\<exists>m s'. get_model_parts duplicate_env (start_state 0 empty_disk) = (Inr m, s')
     \<and> m (CInt 1) = Some (CStr ''D.A.V.E'') \<and> m (CInt 2) = Some (CStr ''Peanut crusher'')"
proof -
  obtain r s' where g: "get_model_parts duplicate_env (start_state 0 empty_disk) = (r, s')"
    by (cases "get_model_parts duplicate_env (start_state 0 empty_disk)")
  then have "\<not> isl r"
    by (auto simp: get_model_parts_def duplicate_env_def scripted_env_def run_simps
        to_records_def two_heads_def)
  then obtain m where m: "r = Inr m" by (cases r) auto
  have tr: "last (trace s') = AskedTable (ReadHtmlFirst ''<table><p>robot</p></table>'')
      (Inr two_heads)"
    using g
    by (auto simp: get_model_parts_def duplicate_env_def scripted_env_def run_simps
        to_records_def two_heads_def)
  from catalog_later_row_wins [OF g [unfolded m], of "CInt 1"]
       catalog_later_row_wins [OF g [unfolded m], of "CInt 2"] tr
  have "m (CInt 1) = Some (CStr ''D.A.V.E'') \<and> m (CInt 2) = Some (CStr ''Peanut crusher'')"
    by (auto simp: to_records_def two_heads_def)
  with g m show ?thesis by blast
qed

end
